theory Spec2Isabelle
  imports Complex_Main "HOL-Library.AList"
begin

section \<open>Python values and the operations the script applies to them\<close>

text \<open>
  A shallow embedding of \<^verbatim>\<open>Python/ThirdPartyData/GetAllThirdPartyDataForPartnerGQL.py\<close>.
  Everything the script receives from the server is the result of \<^verbatim>\<open>json.loads\<close>, so the values
  are JSON values. Numbers are integers (floats do not occur in what the script inspects);
  an object is an association list in key order, as a Python \<^verbatim>\<open>dict\<close> keeps insertion order.
  Output on \<^verbatim>\<open>stdout\<close> (\<^verbatim>\<open>print\<close>) and the clock are not modelled.
\<close>

datatype json =
    JNull
  | JBool bool
  | JInt int
  | JStr string
  | JArr "json list"
  | JObj "(string \<times> json) list"

text \<open>Every exception the script can raise is a value; \<open>Exception\<close> carries its message.\<close>

datatype py_error =
    AttributeError
  | KeyError
  | TypeError
  | IndexError
  | JSONDecodeError
  | ValueError string
  | Exception string

text \<open>Sequencing of computations that may raise: the first exception wins.\<close>

fun ebind :: "'e + 'a \<Rightarrow> ('a \<Rightarrow> 'e + 'b) \<Rightarrow> 'e + 'b" where
  "ebind (Inl e) f = Inl e"
| "ebind (Inr x) f = f x"

text \<open>Python truthiness, as used by \<^verbatim>\<open>if x\<close> and \<^verbatim>\<open>any(...)\<close>.\<close>

fun truthy :: "json \<Rightarrow> bool" where
  "truthy JNull = False"
| "truthy (JBool b) = b"
| "truthy (JInt i) = (i \<noteq> 0)"
| "truthy (JStr s) = (s \<noteq> [])"
| "truthy (JArr xs) = (xs \<noteq> [])"
| "truthy (JObj kvs) = (kvs \<noteq> [])"

text \<open>\<^verbatim>\<open>x.get(key, default)\<close>: only a dict has the method.\<close>

fun py_get :: "json \<Rightarrow> string \<Rightarrow> json \<Rightarrow> py_error + json" where
  "py_get (JObj kvs) key dflt = Inr (case map_of kvs key of Some v \<Rightarrow> v | None \<Rightarrow> dflt)"
| "py_get _ key dflt = Inl AttributeError"

text \<open>\<^verbatim>\<open>x[key]\<close> with a string key: \<^verbatim>\<open>KeyError\<close> on a dict without the key,
  \<^verbatim>\<open>TypeError\<close> on everything that is not a dict.\<close>

fun py_index :: "json \<Rightarrow> string \<Rightarrow> py_error + json" where
  "py_index (JObj kvs) key = (case map_of kvs key of Some v \<Rightarrow> Inr v | None \<Rightarrow> Inl KeyError)"
| "py_index _ key = Inl TypeError"

text \<open>Iteration (\<^verbatim>\<open>for x in v\<close>, \<^verbatim>\<open>list.extend(v)\<close>): a list gives its elements, a dict its keys,
  a string its characters; nothing else is iterable.\<close>

fun py_iter :: "json \<Rightarrow> py_error + json list" where
  "py_iter (JArr xs) = Inr xs"
| "py_iter (JObj kvs) = Inr (map (\<lambda>kv. JStr (fst kv)) kvs)"
| "py_iter (JStr s) = Inr (map (\<lambda>c. JStr [c]) s)"
| "py_iter _ = Inl TypeError"

text \<open>\<^verbatim>\<open>xs[i]\<close> on a list: a negative index counts from the end.\<close>

definition py_nth :: "'a list \<Rightarrow> int \<Rightarrow> py_error + 'a" where
  "py_nth xs i =
     (if 0 \<le> i \<and> i < int (length xs) then Inr (xs ! nat i)
      else if i < 0 \<and> - int (length xs) \<le> i then Inr (xs ! nat (int (length xs) + i))
      else Inl IndexError)"

text \<open>\<^verbatim>\<open>d[key]\<close> and \<^verbatim>\<open>{k: v for ...}\<close> on the script's own dicts.\<close>

definition dict_index :: "(string \<times> 'v) list \<Rightarrow> string \<Rightarrow> py_error + 'v" where
  "dict_index d key = (case map_of d key of Some v \<Rightarrow> Inr v | None \<Rightarrow> Inl KeyError)"

definition dict_of :: "(string \<times> 'v) list \<Rightarrow> (string \<times> 'v) list" where
  "dict_of kvs = fold (\<lambda>kv d. AList.update (fst kv) (snd kv) d) kvs []"

text \<open>Membership in a Python \<^verbatim>\<open>set\<close>: only \<^verbatim>\<open>None\<close>, booleans, numbers and strings are hashable,
  and \<^verbatim>\<open>True == 1\<close>, \<^verbatim>\<open>False == 0\<close>. The set is kept as the list of its elements in insertion
  order; the order in which Python iterates it is a separate matter (see \<open>list(...)\<close> below).\<close>

fun hashable :: "json \<Rightarrow> bool" where
  "hashable (JArr xs) = False"
| "hashable (JObj kvs) = False"
| "hashable _ = True"

fun py_eq :: "json \<Rightarrow> json \<Rightarrow> bool" where
  "py_eq (JBool b) (JInt i) = (i = (if b then 1 else 0))"
| "py_eq (JInt i) (JBool b) = (i = (if b then 1 else 0))"
| "py_eq x y = (x = y)"

definition set_add :: "json list \<Rightarrow> json \<Rightarrow> py_error + json list" where
  "set_add s x =
     (if \<not> hashable x then Inl TypeError
      else if list_ex (\<lambda>y. py_eq y x) s then Inr s
      else Inr (s @ [x]))"

subsection \<open>Decimal numerals, \<^verbatim>\<open>str.split\<close> and \<^verbatim>\<open>int(...)\<close>\<close>

definition digit_char :: "nat \<Rightarrow> char" where
  "digit_char d = char_of (48 + d)"

function show_nat :: "nat \<Rightarrow> string" where
  "show_nat n = (if n < 10 then [digit_char n] else show_nat (n div 10) @ [digit_char (n mod 10)])"
  by pat_completeness auto
termination
  by (relation "measure (\<lambda>n. n)") auto

definition show_int :: "int \<Rightarrow> string" where
  "show_int i = (if i < 0 then CHR ''-'' # show_nat (nat (- i)) else show_nat (nat i))"

definition is_digit :: "char \<Rightarrow> bool" where
  "is_digit c = (48 \<le> (of_char c :: nat) \<and> (of_char c :: nat) \<le> 57)"

definition digit_val :: "char \<Rightarrow> nat" where
  "digit_val c = of_char c - 48"

text \<open>\<^verbatim>\<open>int(s)\<close> on a string of decimal digits. (Python also accepts a sign, surrounding blanks
  and digit-group underscores; the labels this script parses are pieces between underscores of
  labels it built itself, so those forms are answered with the \<^verbatim>\<open>ValueError\<close> branch here.)\<close>

definition int_of_string :: "string \<Rightarrow> py_error + int" where
  "int_of_string s =
     (if s \<noteq> [] \<and> list_all is_digit s
      then Inr (int (foldl (\<lambda>a c. 10 * a + digit_val c) 0 s))
      else Inl (ValueError ''invalid literal for int() with base 10''))"

text \<open>\<^verbatim>\<open>s.split(sep)\<close> for a one-character separator.\<close>

fun split_on :: "char \<Rightarrow> string \<Rightarrow> string list" where
  "split_on sep [] = [[]]"
| "split_on sep (c # cs) =
     (if c = sep then [] # split_on sep cs
      else (case split_on sep cs of p # ps \<Rightarrow> (c # p) # ps | [] \<Rightarrow> [[c]]))"

subsection \<open>\<^verbatim>\<open>range\<close> and slices\<close>

text \<open>\<^verbatim>\<open>range(start, stop, step)\<close> for a positive step (the only use is behind the guard
  \<^verbatim>\<open>partition_size <= 0\<close>), and \<^verbatim>\<open>xs[i:j]\<close> for \<open>0 \<le> i \<le> j\<close>.\<close>

function py_range :: "nat \<Rightarrow> nat \<Rightarrow> nat \<Rightarrow> nat list" where
  "py_range start stop step =
     (if 0 < step \<and> start < stop then start # py_range (start + step) stop step else [])"
  by pat_completeness auto
termination
  by (relation "measure (\<lambda>(start, stop, step). stop - start)") auto

declare py_range.simps [simp del]
declare show_nat.simps [simp del]

definition py_slice :: "'a list \<Rightarrow> nat \<Rightarrow> nat \<Rightarrow> 'a list" where
  "py_slice xs i j = take (j - i) (drop i xs)"


section \<open>The script\<close>

subsection \<open>Configuration, network and files\<close>

text \<open>The module-level variables the user fills in. \<^verbatim>\<open>token\<close> and \<^verbatim>\<open>gql_url\<close> only select
  and authorise the server, which is a parameter here.\<close>

record config =
  cfg_partner_id :: string
  cfg_partition_total_call_size :: int
  cfg_partition_gql_alias_query_size :: int
  cfg_third_party_data_count :: int
  cfg_max_retries :: int

definition default_config :: config where
  "default_config =
     \<lparr> cfg_partner_id = ''REPLACE_WITH_PARTNER_ID'',
       cfg_partition_total_call_size = 30,
       cfg_partition_gql_alias_query_size = 10,
       cfg_third_party_data_count = 1000,
       cfg_max_retries = 3 \<rparr>"

text \<open>
  The text of a query is a fixed template around the parts that vary; a request is kept as
  those parts. The combined query has one aliased \<^verbatim>\<open>thirdPartyData\<close> field per active alias:
  its label, its \<^verbatim>\<open>after\<close> cursor and its provider group.
\<close>

datatype gql_query =
    GetThirdPartyDataProviders
  | GetPartnerThirdPartyData "(string \<times> json \<times> json list) list"

record gql_request =
  req_query :: gql_query
  req_variables :: "(string \<times> json) list"

text \<open>
  \<^verbatim>\<open>response.content\<close> is kept as what \<^verbatim>\<open>len\<close> and \<^verbatim>\<open>json.loads\<close> make of it: no bytes,
  bytes that parse to a JSON value, or bytes on which \<^verbatim>\<open>json.loads\<close> raises.
\<close>

datatype http_body = Body_empty | Body_json json | Body_invalid

record http_response =
  ok :: bool
  content :: http_body

text \<open>The server answers the \<open>n\<close>-th request of the run (counted from 0). Only calls that come
  back with an HTTP response are modelled.\<close>

type_synonym server = "nat \<Rightarrow> gql_request \<Rightarrow> http_response"

text \<open>What the run leaves behind: the requests it sent, the module-level accumulator
  \<^verbatim>\<open>total_third_party_data_list\<close>, and the file \<^verbatim>\<open>third_party_data.json\<close> (\<open>None\<close>: not written).\<close>

record world =
  sent :: "gql_request list"
  total_third_party_data_list :: "json list"
  third_party_data_json :: "json list option"

record GqlResponse =
  data :: json
  errors :: json

subsection \<open>\<^verbatim>\<open>execute_gql_request\<close>\<close>

definition json_loads :: "http_body \<Rightarrow> py_error + json" where
  "json_loads b = (case b of Body_json j \<Rightarrow> Inr j | _ \<Rightarrow> Inl JSONDecodeError)"

text \<open>What the function makes of the HTTP response, once \<^verbatim>\<open>requests.post\<close> has returned it.\<close>

definition read_response :: "http_response \<Rightarrow> py_error + bool \<times> GqlResponse" where
  "read_response response =
     ebind (if content response \<noteq> Body_empty then json_loads (content response)
            else Inr (JObj [])) (\<lambda>parsed.
     ebind (py_get parsed ''data'' (JObj [])) (\<lambda>resp_data.
     ebind (py_get parsed ''errors'' (JArr [])) (\<lambda>errs.
       Inr (ok response, \<lparr> data = resp_data, errors = errs \<rparr>))))"

definition execute_gql_request ::
    "server \<Rightarrow> gql_query \<Rightarrow> (string \<times> json) list \<Rightarrow> world
      \<Rightarrow> (py_error + bool \<times> GqlResponse) \<times> world" where
  "execute_gql_request srv body variables w =
     (let request = \<lparr> req_query = body, req_variables = variables \<rparr>
      in (read_response (srv (length (sent w)) request), w \<lparr> sent := sent w @ [request] \<rparr>))"

subsection \<open>\<^verbatim>\<open>execute_with_retries\<close>\<close>

text \<open>One pass through the body of the \<^verbatim>\<open>while\<close> loop is one equation of the function;
  \<open>try_count\<close> is the loop variable. An exception of \<^verbatim>\<open>execute_gql_request\<close> is raised outside
  the \<^verbatim>\<open>try\<close> block and leaves the function; inside it only \<^verbatim>\<open>AttributeError\<close> is caught.\<close>

function execute_with_retries_from ::
    "int \<Rightarrow> server \<Rightarrow> gql_query \<Rightarrow> (string \<times> json) list \<Rightarrow> string \<Rightarrow> int \<Rightarrow> world
      \<Rightarrow> (py_error + json) \<times> world" where
  "execute_with_retries_from try_count srv query variables partner_id max_retries w =
     (if try_count \<le> max_retries then
        (case execute_gql_request srv query variables w of
           (Inl e, w') \<Rightarrow> (Inl e, w')
         | (Inr (request_success, response), w') \<Rightarrow>
             (case (if request_success
                    then (case py_get (data response) ''partner'' (JObj []) of
                            Inr partner_data \<Rightarrow> Some (Inr partner_data)
                          | Inl AttributeError \<Rightarrow> None
                          | Inl e \<Rightarrow> Some (Inl e))
                    else None) of
                Some r \<Rightarrow> (r, w')
              | None \<Rightarrow>
                  (if try_count + 1 > max_retries
                   then (Inl (Exception (''Failed to fetch data for partner '' @ partner_id
                                @ '' after '' @ show_int max_retries @ '' retries.'')), w')
                   else execute_with_retries_from (try_count + 1) srv query variables
                          partner_id max_retries w')))
      else (Inl (Exception (''Unexpected error occurred for partner '' @ partner_id @ ''.'')), w))"
  by pat_completeness auto
termination
  by (relation "measure (\<lambda>(try_count, srv, query, variables, partner_id, max_retries, w).
                  nat (max_retries + 1 - try_count))") auto

declare execute_with_retries_from.simps [simp del]

definition execute_with_retries ::
    "server \<Rightarrow> gql_query \<Rightarrow> (string \<times> json) list \<Rightarrow> string \<Rightarrow> int \<Rightarrow> world
      \<Rightarrow> (py_error + json) \<times> world" where
  "execute_with_retries srv query variables partner_id max_retries w =
     execute_with_retries_from 0 srv query variables partner_id max_retries w"

subsection \<open>\<^verbatim>\<open>get_user_third_party_data_providers\<close>\<close>

text \<open>The set comprehension, node by node: the filter \<^verbatim>\<open>node.get("id")\<close>, then the element
  \<^verbatim>\<open>node["id"]\<close>, then the insertion into the set.\<close>

fun provider_id_set :: "json list \<Rightarrow> json list \<Rightarrow> py_error + json list" where
  "provider_id_set [] provider_ids = Inr provider_ids"
| "provider_id_set (node # nodes) provider_ids =
     ebind (py_get node ''id'' JNull) (\<lambda>v.
       if truthy v
       then ebind (py_index node ''id'') (\<lambda>x.
            ebind (set_add provider_ids x) (\<lambda>provider_ids'.
              provider_id_set nodes provider_ids'))
       else provider_id_set nodes provider_ids)"

text \<open>
  \<^verbatim>\<open>list(provider_ids)\<close> lists the set in Python's iteration order, which the script does not
  determine: it is the parameter \<open>set_order\<close>, a function of the set as it was built.
  The function returns \<^verbatim>\<open>{"providerIds": ...}\<close>, whose only use is to read that entry again;
  the model returns the list.
\<close>

definition get_user_third_party_data_providers ::
    "(json list \<Rightarrow> json list) \<Rightarrow> server \<Rightarrow> config \<Rightarrow> world \<Rightarrow> (py_error + json list) \<times> world" where
  "get_user_third_party_data_providers set_order srv cfg w =
     (case execute_gql_request srv GetThirdPartyDataProviders
             [(''partnerId'', JStr (cfg_partner_id cfg))] w of
        (Inl e, w') \<Rightarrow> (Inl e, w')
      | (Inr (request_success, response), w') \<Rightarrow>
          (if \<not> request_success then (Inl (Exception ''Failed to fetch providers.''), w')
           else (ebind (py_index (data response) ''partner'') (\<lambda>partner.
                 ebind (py_index partner ''thirdPartyDataProviders'') (\<lambda>providers.
                 ebind (py_index providers ''nodes'') (\<lambda>nodes.
                 ebind (py_iter nodes) (\<lambda>node_list.
                 ebind (provider_id_set node_list []) (\<lambda>provider_ids.
                   Inr (set_order provider_ids)))))), w')))"

subsection \<open>\<^verbatim>\<open>partition_list\<close>\<close>

definition partition_list :: "'a list \<Rightarrow> int \<Rightarrow> py_error + 'a list list" where
  "partition_list strings partition_size =
     (if partition_size \<le> 0 then Inl (ValueError ''Partition size must be greater than 0.'')
      else Inr (map (\<lambda>i. py_slice strings i (i + nat partition_size))
                    (py_range 0 (length strings) (nat partition_size))))"

subsection \<open>\<^verbatim>\<open>get_partner_third_party_data\<close>\<close>

record fetch_state =
  third_party_data_list :: "json list"
  alias_has_more_map :: "(string \<times> json) list"
  alias_cursor_map :: "(string \<times> json) list"

definition alias_label :: "nat \<Rightarrow> string" where
  "alias_label idx = ''mygroup_'' @ show_nat (idx + 1) @ ''_alias''"

definition initial_fetch_state :: "json list list \<Rightarrow> fetch_state" where
  "initial_fetch_state partitioned_provider_list =
     (let has_more = dict_of (map (\<lambda>idx. (alias_label idx, JBool True))
                                  [0 ..< length partitioned_provider_list])
      in \<lparr> third_party_data_list = [],
           alias_has_more_map = has_more,
           alias_cursor_map = dict_of (map (\<lambda>kv. (fst kv, JNull)) has_more) \<rparr>)"

definition active_aliases_of :: "(string \<times> json) list \<Rightarrow> string list" where
  "active_aliases_of has_more_map = map fst (filter (\<lambda>kv. truthy (snd kv)) has_more_map)"

text \<open>One aliased field of the combined query: the group index is read back out of the label.\<close>

definition build_subquery ::
    "json list list \<Rightarrow> (string \<times> json) list \<Rightarrow> string \<Rightarrow> py_error + string \<times> json \<times> json list" where
  "build_subquery partitioned_provider_list cursor_map alias =
     ebind (py_nth (split_on CHR ''_'' alias) 1) (\<lambda>number.
     ebind (int_of_string number) (\<lambda>n.
     ebind (py_nth partitioned_provider_list (n - 1)) (\<lambda>provider_group.
     ebind (dict_index cursor_map alias) (\<lambda>after_cursor.
       Inr (alias, after_cursor, provider_group)))))"

fun build_query ::
    "json list list \<Rightarrow> (string \<times> json) list \<Rightarrow> string list
      \<Rightarrow> py_error + (string \<times> json \<times> json list) list" where
  "build_query partitioned_provider_list cursor_map [] = Inr []"
| "build_query partitioned_provider_list cursor_map (alias # aliases) =
     ebind (build_subquery partitioned_provider_list cursor_map alias) (\<lambda>sub.
     ebind (build_query partitioned_provider_list cursor_map aliases) (\<lambda>subs.
       Inr (sub # subs)))"

text \<open>The second \<^verbatim>\<open>for\<close> loop: read each active alias's part of the response.\<close>

fun process_aliases :: "json \<Rightarrow> string list \<Rightarrow> fetch_state \<Rightarrow> py_error + fetch_state" where
  "process_aliases partner_data [] st = Inr st"
| "process_aliases partner_data (alias # aliases) st =
     ebind (py_get partner_data alias (JObj [])) (\<lambda>alias_data.
     ebind (py_get alias_data ''nodes'' (JArr [])) (\<lambda>nodes.
     ebind (py_get alias_data ''pageInfo'' (JObj [])) (\<lambda>page_info.
     ebind (py_get page_info ''hasNextPage'' (JBool False)) (\<lambda>has_next_page.
     ebind (py_get page_info ''endCursor'' JNull) (\<lambda>end_cursor.
     ebind (py_iter nodes) (\<lambda>node_list.
       process_aliases partner_data aliases
         (st \<lparr> third_party_data_list := third_party_data_list st @ node_list,
               alias_has_more_map := AList.update alias has_next_page (alias_has_more_map st),
               alias_cursor_map := AList.update alias end_cursor (alias_cursor_map st) \<rparr>)))))))"

text \<open>The body of the \<^verbatim>\<open>while\<close> loop after the \<^verbatim>\<open>break\<close> test: build the query, send it through
  the retry wrapper (with the module's \<^verbatim>\<open>max_retries\<close> as the default argument), read the answer.\<close>

definition fetch_round ::
    "server \<Rightarrow> int \<Rightarrow> string \<Rightarrow> int \<Rightarrow> json list list \<Rightarrow> string list \<Rightarrow> fetch_state \<Rightarrow> world
      \<Rightarrow> (py_error + fetch_state) \<times> world" where
  "fetch_round srv max_retries partner_id third_party_data_count partitioned_provider_list
       active_aliases st w =
     (case build_query partitioned_provider_list (alias_cursor_map st) active_aliases of
        Inl e \<Rightarrow> (Inl e, w)
      | Inr subs \<Rightarrow>
          (case execute_with_retries srv (GetPartnerThirdPartyData subs)
                  [(''partnerId'', JStr partner_id),
                   (''thirdPartyDataCount'', JInt third_party_data_count)]
                  partner_id max_retries w of
             (Inl e, w') \<Rightarrow> (Inl e, w')
           | (Inr partner_data, w') \<Rightarrow> (process_aliases partner_data active_aliases st, w')))"

text \<open>The \<^verbatim>\<open>while\<close> loop can run forever (a server that always reports another page), so it
  runs on fuel: one unit per round. It reports whether the loop was left or the fuel ran out,
  with the state reached either way.\<close>

datatype loop_status = Loop_left | Fuel_exhausted

fun fetch_loop ::
    "nat \<Rightarrow> server \<Rightarrow> int \<Rightarrow> string \<Rightarrow> int \<Rightarrow> json list list \<Rightarrow> fetch_state \<Rightarrow> world
      \<Rightarrow> (py_error + loop_status \<times> fetch_state) \<times> world" where
  "fetch_loop fuel srv max_retries partner_id third_party_data_count partitioned_provider_list st w =
     (if list_ex truthy (map snd (alias_has_more_map st)) then
        (let active_aliases = active_aliases_of (alias_has_more_map st) in
         if active_aliases = [] then (Inr (Loop_left, st), w)
         else (case fuel of
                 0 \<Rightarrow> (Inr (Fuel_exhausted, st), w)
               | Suc fuel' \<Rightarrow>
                   (case fetch_round srv max_retries partner_id third_party_data_count
                           partitioned_provider_list active_aliases st w of
                      (Inl e, w') \<Rightarrow> (Inl e, w')
                    | (Inr st', w') \<Rightarrow>
                        fetch_loop fuel' srv max_retries partner_id third_party_data_count
                          partitioned_provider_list st' w')))
      else (Inr (Loop_left, st), w))"

declare fetch_loop.simps [simp del]

text \<open>\<open>None\<close>: the loop did not end within the fuel.\<close>

definition get_partner_third_party_data ::
    "nat \<Rightarrow> server \<Rightarrow> int \<Rightarrow> string \<Rightarrow> int \<Rightarrow> json list list \<Rightarrow> world
      \<Rightarrow> ((py_error + unit) \<times> world) option" where
  "get_partner_third_party_data fuel srv max_retries partner_id third_party_data_count
       partitioned_provider_list w =
     (case fetch_loop fuel srv max_retries partner_id third_party_data_count
             partitioned_provider_list (initial_fetch_state partitioned_provider_list) w of
        (Inl e, w') \<Rightarrow> Some (Inl e, w')
      | (Inr (Fuel_exhausted, st), w') \<Rightarrow> None
      | (Inr (Loop_left, st), w') \<Rightarrow>
          Some (Inr (), w' \<lparr> total_third_party_data_list :=
                              total_third_party_data_list w' @ third_party_data_list st \<rparr>))"

subsection \<open>\<^verbatim>\<open>query_partner_third_party_data\<close>\<close>

text \<open>The \<^verbatim>\<open>for\<close> loop over the outer chunks.\<close>

fun fetch_calls ::
    "nat \<Rightarrow> server \<Rightarrow> config \<Rightarrow> json list list \<Rightarrow> world \<Rightarrow> ((py_error + unit) \<times> world) option" where
  "fetch_calls fuel srv cfg [] w = Some (Inr (), w)"
| "fetch_calls fuel srv cfg (call_list # calls) w =
     (case partition_list call_list (cfg_partition_gql_alias_query_size cfg) of
        Inl e \<Rightarrow> Some (Inl e, w)
      | Inr partitioned_provider_list \<Rightarrow>
          (case get_partner_third_party_data fuel srv (cfg_max_retries cfg) (cfg_partner_id cfg)
                  (cfg_third_party_data_count cfg) partitioned_provider_list w of
             None \<Rightarrow> None
           | Some (Inl e, w') \<Rightarrow> Some (Inl e, w')
           | Some (Inr u, w') \<Rightarrow> fetch_calls fuel srv cfg calls w'))"

definition query_partner_third_party_data ::
    "nat \<Rightarrow> (json list \<Rightarrow> json list) \<Rightarrow> server \<Rightarrow> config \<Rightarrow> world
      \<Rightarrow> ((py_error + unit) \<times> world) option" where
  "query_partner_third_party_data fuel set_order srv cfg w =
     (case get_user_third_party_data_providers set_order srv cfg w of
        (Inl e, w1) \<Rightarrow> Some (Inl e, w1)
      | (Inr provider_list, w1) \<Rightarrow>
          (case partition_list provider_list (cfg_partition_total_call_size cfg) of
             Inl e \<Rightarrow> Some (Inl e, w1)
           | Inr partitioned_calls_list \<Rightarrow>
               (case fetch_calls fuel srv cfg partitioned_calls_list w1 of
                  None \<Rightarrow> None
                | Some (Inl e, w2) \<Rightarrow> Some (Inl e, w2)
                | Some (Inr u, w2) \<Rightarrow>
                    Some (Inr (), w2 \<lparr> third_party_data_json :=
                                         Some (total_third_party_data_list w2) \<rparr>))))"


section \<open>Notions used to state the properties\<close>

text \<open>The world before the run, and the world after \<open>k\<close> more copies of one request.\<close>

definition empty_world :: world where
  "empty_world = \<lparr> sent = [], total_third_party_data_list = [], third_party_data_json = None \<rparr>"

definition after_requests :: "world \<Rightarrow> nat \<Rightarrow> gql_request \<Rightarrow> world" where
  "after_requests w k request = w \<lparr> sent := sent w @ replicate k request \<rparr>"

text \<open>
  An attempt of the retry wrapper, read off the HTTP response: it fails when the transport
  reports failure or the \<^verbatim>\<open>try\<close> block ends in the caught \<^verbatim>\<open>AttributeError\<close>; it succeeds with
  the value the wrapper returns.
\<close>

definition failed_attempt :: "http_response \<Rightarrow> bool" where
  "failed_attempt response =
     (case read_response response of
        Inl e \<Rightarrow> False
      | Inr (request_success, r) \<Rightarrow>
          \<not> request_success \<or> py_get (data r) ''partner'' (JObj []) = Inl AttributeError)"

definition successful_attempt :: "http_response \<Rightarrow> json \<Rightarrow> bool" where
  "successful_attempt response partner_data =
     (case read_response response of
        Inl e \<Rightarrow> False
      | Inr (request_success, r) \<Rightarrow>
          request_success \<and> py_get (data r) ''partner'' (JObj []) = Inr partner_data)"

definition retries_exhausted :: "string \<Rightarrow> int \<Rightarrow> py_error" where
  "retries_exhausted partner_id max_retries =
     Exception (''Failed to fetch data for partner '' @ partner_id
                @ '' after '' @ show_int max_retries @ '' retries.'')"


subsection \<open>Servers for the concrete runs\<close>

definition html_error_server :: server where
  "html_error_server n request = \<lparr> ok = False, content = Body_invalid \<rparr>"

definition json_array_server :: server where
  "json_array_server n request = \<lparr> ok = True, content = Body_json (JArr []) \<rparr>"


definition down_server :: server where
  "down_server n request =
     \<lparr> ok = False, content = Body_json (JObj [(''errors'', JArr [JStr ''unavailable''])]) \<rparr>"

definition flaky_server :: server where
  "flaky_server n request =
     (if n < 2 then \<lparr> ok = False, content = Body_empty \<rparr>
      else \<lparr> ok = True,
             content = Body_json (JObj [(''data'', JObj [(''partner'', JObj [(''name'', JStr ''p1'')])])]) \<rparr>)"


subsection \<open>The fetch loop\<close>

text \<open>The aliases of a combined query, and what a round reads from the response for an alias's
  page-info entry (the default when the entry is absent).\<close>

definition request_aliases :: "gql_request \<Rightarrow> string list" where
  "request_aliases request =
     (case req_query request of
        GetPartnerThirdPartyData subs \<Rightarrow> map fst subs
      | GetThirdPartyDataProviders \<Rightarrow> [])"

definition page_info_of :: "json \<Rightarrow> string \<Rightarrow> string \<Rightarrow> json \<Rightarrow> json" where
  "page_info_of partner_data alias key dflt =
     (case ebind (py_get partner_data alias (JObj [])) (\<lambda>alias_data.
           ebind (py_get alias_data ''pageInfo'' (JObj [])) (\<lambda>page_info.
             py_get page_info key dflt)) of
        Inr v \<Rightarrow> v
      | Inl e \<Rightarrow> dflt)"

text \<open>
  A paginating upstream: the pages of a provider group are fixed, the cursor after page \<open>j\<close>
  names page \<open>j + 1\<close>, and the last page has \<^verbatim>\<open>hasNextPage = false\<close> and no end cursor.
\<close>

definition page_json :: "json list list \<Rightarrow> json \<Rightarrow> json" where
  "page_json pages after =
     (let j = (case after of JInt i \<Rightarrow> nat i | _ \<Rightarrow> 0) in
      JObj [(''nodes'', JArr (if j < length pages then pages ! j else [])),
            (''pageInfo'',
               JObj [(''hasNextPage'', JBool (j + 1 < length pages)),
                     (''endCursor'', if j + 1 < length pages then JInt (int (j + 1)) else JNull)])])"

definition paged_upstream :: "(json list \<Rightarrow> json list list) \<Rightarrow> server" where
  "paged_upstream pages_of n request =
     (case req_query request of
        GetPartnerThirdPartyData subs \<Rightarrow>
          \<lparr> ok = True,
            content = Body_json (JObj [(''data'', JObj [(''partner'',
              JObj (map (\<lambda>(alias, after, provider_group).
                           (alias, page_json (pages_of provider_group) after)) subs))])]) \<rparr>
      | GetThirdPartyDataProviders \<Rightarrow> \<lparr> ok = False, content = Body_empty \<rparr>)"

text \<open>An upstream that always announces another page and never gives a cursor.\<close>

definition null_cursor_server :: server where
  "null_cursor_server n request =
     (case req_query request of
        GetPartnerThirdPartyData subs \<Rightarrow>
          \<lparr> ok = True,
            content = Body_json (JObj [(''data'', JObj [(''partner'',
              JObj (map (\<lambda>sub. (fst sub,
                      JObj [(''nodes'', JArr [JStr ''n'']),
                            (''pageInfo'', JObj [(''hasNextPage'', JBool True),
                                                 (''endCursor'', JNull)])])) subs))])]) \<rparr>
      | GetThirdPartyDataProviders \<Rightarrow> \<lparr> ok = False, content = Body_empty \<rparr>)"


text \<open>A run over three provider groups with two, one (empty) and three pages.\<close>

definition example_pages :: "json list \<Rightarrow> json list list" where
  "example_pages provider_group =
     (if provider_group = [JStr ''a'', JStr ''b'']
      then [[JStr ''a1'', JStr ''b1''], [JStr ''a2'']]
      else if provider_group = [JStr ''c'']
      then [[]]
      else [[JStr ''x1''], [JStr ''x2''], [JStr ''x3'']])"

definition example_groups :: "json list list" where
  "example_groups = [[JStr ''a'', JStr ''b''], [JStr ''c''], [JStr ''d'']]"

definition example_state_1 :: fetch_state where
  "example_state_1 =
     \<lparr> third_party_data_list = [JStr ''a1'', JStr ''b1'', JStr ''x1''],
       alias_has_more_map = [(''mygroup_1_alias'', JBool True), (''mygroup_2_alias'', JBool False),
                             (''mygroup_3_alias'', JBool True)],
       alias_cursor_map = [(''mygroup_1_alias'', JInt 1), (''mygroup_2_alias'', JNull),
                           (''mygroup_3_alias'', JInt 1)] \<rparr>"

definition example_request_1 :: gql_request where
  "example_request_1 =
     \<lparr> req_query = GetPartnerThirdPartyData
         [(''mygroup_1_alias'', JNull, [JStr ''a'', JStr ''b'']),
          (''mygroup_2_alias'', JNull, [JStr ''c'']),
          (''mygroup_3_alias'', JNull, [JStr ''d''])],
       req_variables = [(''partnerId'', JStr ''p1''), (''thirdPartyDataCount'', JInt 1000)] \<rparr>"

definition example_state_3 :: fetch_state where
  "example_state_3 =
     \<lparr> third_party_data_list = [JStr ''a1'', JStr ''b1'', JStr ''x1'', JStr ''a2'', JStr ''x2'', JStr ''x3''],
       alias_has_more_map = [(''mygroup_1_alias'', JBool False), (''mygroup_2_alias'', JBool False),
                             (''mygroup_3_alias'', JBool False)],
       alias_cursor_map = [(''mygroup_1_alias'', JNull), (''mygroup_2_alias'', JNull),
                           (''mygroup_3_alias'', JNull)] \<rparr>"

definition example_request_2 :: gql_request where
  "example_request_2 =
     \<lparr> req_query = GetPartnerThirdPartyData
         [(''mygroup_1_alias'', JInt 1, [JStr ''a'', JStr ''b'']),
          (''mygroup_3_alias'', JInt 1, [JStr ''d''])],
       req_variables = [(''partnerId'', JStr ''p1''), (''thirdPartyDataCount'', JInt 1000)] \<rparr>"

definition example_request_3 :: gql_request where
  "example_request_3 =
     \<lparr> req_query = GetPartnerThirdPartyData [(''mygroup_3_alias'', JInt 2, [JStr ''d''])],
       req_variables = [(''partnerId'', JStr ''p1''), (''thirdPartyDataCount'', JInt 1000)] \<rparr>"

text \<open>
  What the run against the paginating upstream is expected to be. \<open>round_major\<close> lists the pages
  of all groups round by round, in group order within a round; \<open>rounds_needed\<close> is the largest
  page count. \<open>paged_state\<close> and \<open>paged_request\<close> are the loop state before round \<open>r\<close> (counted
  from 0) and the combined query of that round: an alias is in it while its group has a page
  number \<open>r\<close>.
\<close>

definition round_major :: "'a list list list \<Rightarrow> 'a list" where
  "round_major pss =
     concat (map (\<lambda>r. concat (map (\<lambda>ps. if r < length ps then ps ! r else []) pss))
                 [0 ..< foldr max (map length pss) 0])"

definition rounds_needed :: "(json list \<Rightarrow> json list list) \<Rightarrow> json list list \<Rightarrow> nat" where
  "rounds_needed pages_of groups = foldr max (map (\<lambda>g. length (pages_of g)) groups) 0"

definition paged_cursor :: "nat \<Rightarrow> nat \<Rightarrow> json" where
  "paged_cursor n r = (if 0 < r \<and> r < n then JInt (int r) else JNull)"

definition paged_state :: "(json list \<Rightarrow> json list list) \<Rightarrow> json list list \<Rightarrow> nat \<Rightarrow> fetch_state" where
  "paged_state pages_of groups r =
     \<lparr> third_party_data_list =
         concat (map (\<lambda>r'. concat (map (\<lambda>g. if r' < length (pages_of g) then pages_of g ! r' else [])
                                       groups)) [0 ..< r]),
       alias_has_more_map =
         map (\<lambda>k. (alias_label k, JBool (r < length (pages_of (groups ! k))))) [0 ..< length groups],
       alias_cursor_map =
         map (\<lambda>k. (alias_label k, paged_cursor (length (pages_of (groups ! k))) r))
             [0 ..< length groups] \<rparr>"

definition paged_request ::
    "string \<Rightarrow> int \<Rightarrow> (json list \<Rightarrow> json list list) \<Rightarrow> json list list \<Rightarrow> nat \<Rightarrow> gql_request" where
  "paged_request partner_id third_party_data_count pages_of groups r =
     \<lparr> req_query = GetPartnerThirdPartyData
         (map (\<lambda>k. (alias_label k, paged_cursor (length (pages_of (groups ! k))) r, groups ! k))
              (filter (\<lambda>k. r < length (pages_of (groups ! k))) [0 ..< length groups])),
       req_variables = [(''partnerId'', JStr partner_id),
                        (''thirdPartyDataCount'', JInt third_party_data_count)] \<rparr>"

subsection \<open>Provider discovery and the whole run\<close>

text \<open>The discovery request, the node list the function reads out of a response (empty when it
  cannot be read), and the nodes the comprehension's filter drops.\<close>

definition providers_request :: "config \<Rightarrow> gql_request" where
  "providers_request cfg =
     \<lparr> req_query = GetThirdPartyDataProviders,
       req_variables = [(''partnerId'', JStr (cfg_partner_id cfg))] \<rparr>"

definition response_nodes :: "http_response \<Rightarrow> json list" where
  "response_nodes response =
     (case ebind (read_response response) (\<lambda>r.
           ebind (py_index (data (snd r)) ''partner'') (\<lambda>partner.
           ebind (py_index partner ''thirdPartyDataProviders'') (\<lambda>providers.
           ebind (py_index providers ''nodes'') py_iter))) of
        Inr nodes \<Rightarrow> nodes
      | Inl e \<Rightarrow> [])"

definition id_missing_or_falsy :: "json \<Rightarrow> bool" where
  "id_missing_or_falsy node =
     (case py_get node ''id'' JNull of Inr v \<Rightarrow> \<not> truthy v | Inl e \<Rightarrow> False)"

text \<open>The elements of a set are pairwise different, also in Python's sense of equality.\<close>

definition pairwise_distinct_ids :: "json list \<Rightarrow> bool" where
  "pairwise_distinct_ids s = (distinct s \<and> (\<forall>x \<in> set s. \<forall>y \<in> set s. py_eq x y \<longrightarrow> x = y))"

text \<open>A discovery answer with a repeated id, an empty id, a node without id and a null id.\<close>

definition providers_server :: server where
  "providers_server n request =
     \<lparr> ok = True,
       content = Body_json (JObj [(''data'', JObj [(''partner'', JObj [(''thirdPartyDataProviders'',
         JObj [(''nodes'', JArr [JObj [(''id'', JStr ''p1'')], JObj [(''id'', JStr '''')],
                                 JObj [(''name'', JStr ''x'')], JObj [(''id'', JStr ''p2'')],
                                 JObj [(''id'', JStr ''p1'')], JObj [(''id'', JNull)]])])])])]) \<rparr>"

text \<open>A run of two outer chunks of one provider each, with one retry: the upstream serves the
  chunk of provider \<open>a\<close> and is down for every other chunk.\<close>

definition small_config :: config where
  "small_config =
     \<lparr> cfg_partner_id = ''p1'',
       cfg_partition_total_call_size = 1,
       cfg_partition_gql_alias_query_size = 1,
       cfg_third_party_data_count = 1000,
       cfg_max_retries = 1 \<rparr>"

definition second_chunk_down_server :: server where
  "second_chunk_down_server n request =
     (case req_query request of
        GetThirdPartyDataProviders \<Rightarrow>
          \<lparr> ok = True,
            content = Body_json (JObj [(''data'', JObj [(''partner'', JObj [(''thirdPartyDataProviders'',
              JObj [(''nodes'', JArr [JObj [(''id'', JStr ''a'')], JObj [(''id'', JStr ''b'')]])])])])]) \<rparr>
      | GetPartnerThirdPartyData subs \<Rightarrow>
          (if map (\<lambda>sub. snd (snd sub)) subs = [[JStr ''a'']]
           then \<lparr> ok = True,
                  content = Body_json (JObj [(''data'', JObj [(''partner'',
                    JObj (map (\<lambda>sub. (fst sub,
                      JObj [(''nodes'', JArr [JStr ''a1'']),
                            (''pageInfo'', JObj [(''hasNextPage'', JBool False),
                                                 (''endCursor'', JNull)])])) subs))])]) \<rparr>
           else \<lparr> ok = False, content = Body_empty \<rparr>))"

definition chunk_request :: "string \<Rightarrow> gql_request" where
  "chunk_request provider =
     \<lparr> req_query = GetPartnerThirdPartyData [(''mygroup_1_alias'', JNull, [JStr provider])],
       req_variables = [(''partnerId'', JStr ''p1''), (''thirdPartyDataCount'', JInt 1000)] \<rparr>"

section \<open>Partitioning\<close>

lemma concat_slices:
  "0 < n \<Longrightarrow> concat (map (\<lambda>i. py_slice xs i (i + n)) (py_range s (length xs) n)) = drop s xs"
proof (induction s "length xs" n rule: py_range.induct)
  case (1 start step)
  show ?case
  proof (cases "start < length xs")
    case True
    have "drop start xs = take step (drop start xs) @ drop (start + step) xs"
      by (metis append_take_drop_id drop_drop add.commute)
    with 1 True show ?thesis
      by (subst py_range.simps) (simp add: py_slice_def)
  next
    case False
    then show ?thesis by (subst py_range.simps) simp
  qed
qed

lemma div_step_aux:
  assumes "0 < step" "start < (stop::nat)"
  shows "(stop - start + step - 1) div step = Suc ((stop - (start + step) + step - 1) div step)"
proof (cases "start + step \<le> stop")
  case True
  define a where "a = stop - (start + step) + step - 1"
  have "stop - start + step - 1 = a + step"
    unfolding a_def using True assms by arith
  then have "(stop - start + step - 1) div step = (a + step) div step"
    by (rule arg_cong)
  also have "\<dots> = Suc (a div step)" using assms div_add_self2 [of step a] by simp
  finally show ?thesis unfolding a_def .
next
  case False
  define a where "a = stop - (start + step) + step - 1"
  define d where "d = stop - start - 1"
  have a: "a < step" unfolding a_def using False assms by arith
  have c: "d < step" unfolding d_def using False assms by arith
  have "stop - start + step - 1 = d + step" unfolding d_def using assms by arith
  then have "(stop - start + step - 1) div step = (d + step) div step"
    by (rule arg_cong)
  also have "\<dots> = Suc (d div step)" using assms div_add_self2 [of step d] by simp
  also have "\<dots> = Suc (a div step)" using a c by simp
  finally show ?thesis unfolding a_def .
qed

lemma length_py_range:
  "0 < n \<Longrightarrow> length (py_range s stop n) = (stop - s + n - 1) div n"
proof (induction s stop n rule: py_range.induct)
  case (1 start stop step)
  show ?case
  proof (cases "start < stop")
    case True
    have "length (py_range start stop step) = Suc (length (py_range (start + step) stop step))"
      using True 1(2) by (subst py_range.simps) simp
    also have "\<dots> = Suc ((stop - (start + step) + step - 1) div step)"
      using 1 True by simp
    also have "\<dots> = (stop - start + step - 1) div step"
      using div_step_aux [OF 1(2) True] by simp
    finally show ?thesis .
  next
    case False
    with 1 show ?thesis by (subst py_range.simps) simp
  qed
qed

lemma nth_py_range:
  "0 < n \<Longrightarrow> k < length (py_range s stop n) \<Longrightarrow> py_range s stop n ! k = s + k * n"
proof (induction s stop n arbitrary: k rule: py_range.induct)
  case (1 start stop step)
  from 1(3) have lt: "start < stop" by (subst (asm) py_range.simps) (auto split: if_splits)
  show ?case
  proof (cases k)
    case 0
    with lt 1 show ?thesis by (subst py_range.simps) simp
  next
    case (Suc j)
    with lt 1(2,3) have "j < length (py_range (start + step) stop step)"
      by (subst (asm) py_range.simps) simp
    with 1 lt Suc show ?thesis
      by (subst py_range.simps) simp
  qed
qed

lemma set_py_range:
  "0 < n \<Longrightarrow> i \<in> set (py_range s stop n) \<Longrightarrow> i < stop"
proof (induction s stop n rule: py_range.induct)
  case (1 start stop step)
  from 1(3) have lt: "start < stop" by (subst (asm) py_range.simps) (auto split: if_splits)
  from 1(3) lt 1(2) have "i = start \<or> i \<in> set (py_range (start + step) stop step)"
    by (subst (asm) py_range.simps) simp
  with 1 lt show ?case by auto
qed

lemma ceiling_as_div:
  assumes "0 < (n::nat)"
  shows "\<lceil>real a / real n\<rceil> = int ((a + n - 1) div n)"
proof -
  define q where "q = (a + n - 1) div n"
  have "q * n + (a + n - 1) mod n = a + n - 1"
    unfolding q_def by (rule div_mult_mod_eq)
  moreover have "(a + n - 1) mod n < n" using assms by simp
  ultimately have 1: "a \<le> q * n" and 2: "q * n < a + n"
    using assms by arith+
  from 1 have "real a \<le> real q * real n"
    by (metis of_nat_mult of_nat_le_iff)
  then have le: "real a / real n \<le> real q"
    using assms by (simp add: pos_divide_le_eq)
  from 2 have "real q * real n < real a + real n"
    by (metis of_nat_mult of_nat_add of_nat_less_iff)
  then have "(real q - 1) * real n < real a"
    by (simp add: algebra_simps)
  then have gt: "real q - 1 < real a / real n"
    using assms by (simp add: pos_less_divide_eq)
  have "\<lceil>real a / real n\<rceil> = int q"
    by (rule ceiling_unique) (use le gt in simp_all)
  then show ?thesis by (simp add: q_def)
qed

text \<open>
  Claim C7. For every sequence \<open>S\<close> and every positive \<open>N\<close>, \<^verbatim>\<open>partition_list(S, N)\<close> returns
  partitions whose concatenation in order is \<open>S\<close>; every partition except possibly the last has
  length exactly \<open>N\<close>; there are \<open>ceil(len(S)/N)\<close> of them; the empty input gives no partition
  at all (so no partition is ever empty).
\<close>

theorem partition_list_properties:
  assumes "0 < N"
  shows "\<exists>ps. partition_list S N = Inr ps
           \<and> concat ps = S
           \<and> (\<forall>k. k + 1 < length ps \<longrightarrow> length (ps ! k) = nat N)
           \<and> int (length ps) = \<lceil>real (length S) / real_of_int N\<rceil>
           \<and> (S = [] \<longrightarrow> ps = [])
           \<and> (\<forall>p \<in> set ps. p \<noteq> [])"
proof -
  define n where "n = nat N"
  define ps where "ps = map (\<lambda>i. py_slice S i (i + n)) (py_range 0 (length S) n)"
  have n: "0 < n" using assms by (simp add: n_def)
  have eq: "partition_list S N = Inr ps"
    using assms by (simp add: partition_list_def ps_def n_def)
  have cat: "concat ps = S"
    using concat_slices [OF n, of S 0] by (simp add: ps_def)
  have len: "length ps = (length S + n - 1) div n"
    using length_py_range [OF n, of 0 "length S"] by (simp add: ps_def)
  have full: "length (ps ! k) = n" if "k + 1 < length ps" for k
  proof -
    from that have k: "k < length (py_range 0 (length S) n)" and k1: "Suc k < length (py_range 0 (length S) n)"
      by (simp_all add: ps_def)
    have "py_range 0 (length S) n ! Suc k < length S"
      using set_py_range [OF n] k1 nth_mem by blast
    then have "Suc k * n < length S" using nth_py_range [OF n k1] by simp
    then have "k * n + n \<le> length S" by simp
    moreover have "ps ! k = py_slice S (k * n) (k * n + n)"
      using k nth_py_range [OF n k] by (simp add: ps_def)
    ultimately show ?thesis by (simp add: py_slice_def)
  qed
  have ceil: "int (length ps) = \<lceil>real (length S) / real_of_int N\<rceil>"
    using ceiling_as_div [OF n, of "length S"] len assms by (simp add: n_def)
  have empty: "ps = []" if "S = []"
    unfolding ps_def using that by (subst py_range.simps) simp
  have nonempty: "p \<noteq> []" if "p \<in> set ps" for p
  proof -
    from that obtain i where i: "i \<in> set (py_range 0 (length S) n)" and p: "p = py_slice S i (i + n)"
      by (auto simp: ps_def)
    from set_py_range [OF n i] n show ?thesis by (simp add: p py_slice_def)
  qed
  from eq cat full ceil empty nonempty show ?thesis unfolding n_def by blast
qed

theorem partition_list_properties_witness:
  "(0::int) < 2
   \<and> (\<exists>ps. partition_list ''abcde'' 2 = Inr ps \<and> ps = [''ab'', ''cd'', ''e''] \<and> concat ps = ''abcde''
          \<and> int (length ps) = \<lceil>real (length ''abcde'') / real_of_int 2\<rceil>)"
  using partition_list_properties [of 2 "''abcde''"]
  by (simp add: partition_list_def py_range.simps py_slice_def)

text \<open>
  Claim C8. \<^verbatim>\<open>partition_list(items, size)\<close> fails, with the \<^verbatim>\<open>ValueError\<close> that is the script's
  invalid-argument error, if and only if \<open>size \<le> 0\<close>; for every \<open>size > 0\<close> and every input
  sequence it returns normally.
\<close>

theorem partition_list_fails_iff:
  "(partition_list items partition_size = Inl (ValueError ''Partition size must be greater than 0.''))
     = (partition_size \<le> 0)
   \<and> (\<exists>e. partition_list items partition_size = Inl e) = (partition_size \<le> 0)
   \<and> (\<exists>ps. partition_list items partition_size = Inr ps) = (0 < partition_size)"
  by (auto simp: partition_list_def)

theorem partition_list_fails_iff_witness:
  "partition_list ''abc'' 0 = Inl (ValueError ''Partition size must be greater than 0.'')
   \<and> partition_list ''abc'' (- 4) = Inl (ValueError ''Partition size must be greater than 0.'')
   \<and> (\<exists>ps. partition_list ''abc'' 1 = Inr ps)"
  using partition_list_fails_iff [of "''abc''" 0] partition_list_fails_iff [of "''abc''" "- 4"]
    partition_list_fails_iff [of "''abc''" 1]
  by simp

section \<open>The transport\<close>

text \<open>
  Claim C4, as the script has it. \<^verbatim>\<open>execute_gql_request\<close> returns, whatever the HTTP status, when
  the body is empty (then \<open>data = {}\<close> and \<open>errors = []\<close>) or is a JSON object (then the object's
  \<^verbatim>\<open>data\<close> and \<^verbatim>\<open>errors\<close> entries, with those defaults); failure is then signalled only by
  \<open>ok = false\<close> with the raw error list. It raises exactly when the body is not empty and is
  not valid JSON or not a JSON object. One request is sent either way.
\<close>

theorem execute_gql_request_never_raises_on_object:
  assumes "srv (length (sent w)) \<lparr> req_query = body, req_variables = variables \<rparr> = response"
  shows "(content response = Body_empty \<longrightarrow>
            fst (execute_gql_request srv body variables w)
              = Inr (ok response, \<lparr> data = JObj [], errors = JArr [] \<rparr>))
       \<and> (\<forall>kvs. content response = Body_json (JObj kvs) \<longrightarrow>
            fst (execute_gql_request srv body variables w)
              = Inr (ok response,
                     \<lparr> data = (case map_of kvs ''data'' of Some d \<Rightarrow> d | None \<Rightarrow> JObj []),
                       errors = (case map_of kvs ''errors'' of Some e \<Rightarrow> e | None \<Rightarrow> JArr []) \<rparr>))
       \<and> ((\<exists>e. fst (execute_gql_request srv body variables w) = Inl e)
            = (content response = Body_invalid
               \<or> (\<exists>j. content response = Body_json j \<and> (\<forall>kvs. j \<noteq> JObj kvs))))
       \<and> snd (execute_gql_request srv body variables w)
            = w \<lparr> sent := sent w @ [\<lparr> req_query = body, req_variables = variables \<rparr>] \<rparr>"
proof -
  have 1: "content response = Body_empty \<Longrightarrow>
            read_response response = Inr (ok response, \<lparr> data = JObj [], errors = JArr [] \<rparr>)"
    by (simp add: read_response_def)
  have 2: "content response = Body_json (JObj kvs) \<Longrightarrow>
            read_response response = Inr (ok response,
                     \<lparr> data = (case map_of kvs ''data'' of Some d \<Rightarrow> d | None \<Rightarrow> JObj []),
                       errors = (case map_of kvs ''errors'' of Some e \<Rightarrow> e | None \<Rightarrow> JArr []) \<rparr>)" for kvs
    by (simp add: read_response_def json_loads_def)
  have 3: "(\<exists>e. read_response response = Inl e)
            = (content response = Body_invalid
               \<or> (\<exists>j. content response = Body_json j \<and> (\<forall>kvs. j \<noteq> JObj kvs)))"
  proof (cases "content response")
    case Body_empty
    then show ?thesis by (simp add: read_response_def)
  next
    case (Body_json j)
    then show ?thesis by (cases j) (simp_all add: read_response_def json_loads_def)
  next
    case Body_invalid
    then show ?thesis by (simp add: read_response_def json_loads_def)
  qed
  from 1 2 3 assms show ?thesis
    by (simp add: execute_gql_request_def)
qed

theorem execute_gql_request_never_raises_on_object_witness:
  "fst (execute_gql_request down_server GetThirdPartyDataProviders [] empty_world)
     = Inr (False, \<lparr> data = JObj [], errors = JArr [JStr ''unavailable''] \<rparr>)
   \<and> fst (execute_gql_request flaky_server GetThirdPartyDataProviders [] empty_world)
     = Inr (False, \<lparr> data = JObj [], errors = JArr [] \<rparr>)"
  using execute_gql_request_never_raises_on_object
          [of down_server empty_world GetThirdPartyDataProviders "[]"
              "\<lparr> ok = False, content = Body_json (JObj [(''errors'', JArr [JStr ''unavailable''])]) \<rparr>"]
        execute_gql_request_never_raises_on_object
          [of flaky_server empty_world GetThirdPartyDataProviders "[]"
              "\<lparr> ok = False, content = Body_empty \<rparr>"]
  by (simp add: down_server_def flaky_server_def empty_world_def)

text \<open>
  Claim C4 as stated fails: a body that is not JSON (an HTML error page, say) makes
  \<^verbatim>\<open>json.loads\<close> raise, and a JSON body that is not an object makes \<^verbatim>\<open>content.get\<close> raise.
\<close>

theorem execute_gql_request_raises_counterexample:
  "fst (execute_gql_request html_error_server GetThirdPartyDataProviders [] empty_world)
     = Inl JSONDecodeError
   \<and> fst (execute_gql_request json_array_server GetThirdPartyDataProviders [] empty_world)
     = Inl AttributeError"
  by (simp add: execute_gql_request_def read_response_def json_loads_def html_error_server_def
        json_array_server_def)

section \<open>The retry wrapper\<close>

lemma py_get_AttributeError: "py_get j k d = Inl e \<Longrightarrow> e = AttributeError"
  by (cases j) auto

lemma retry_step_fail:
  assumes "try_count \<le> max_retries"
    and "failed_attempt (srv (length (sent w)) \<lparr> req_query = query, req_variables = variables \<rparr>)"
  shows "execute_with_retries_from try_count srv query variables partner_id max_retries w =
           (if max_retries < try_count + 1
            then (Inl (retries_exhausted partner_id max_retries),
                  after_requests w 1 \<lparr> req_query = query, req_variables = variables \<rparr>)
            else execute_with_retries_from (try_count + 1) srv query variables partner_id max_retries
                   (after_requests w 1 \<lparr> req_query = query, req_variables = variables \<rparr>))"
  using assms
  by (subst execute_with_retries_from.simps)
     (auto simp: execute_gql_request_def failed_attempt_def after_requests_def retries_exhausted_def
           split: sum.splits prod.splits py_error.splits)

lemma retry_step_success:
  assumes "try_count \<le> max_retries"
    and "successful_attempt (srv (length (sent w)) \<lparr> req_query = query, req_variables = variables \<rparr>) v"
  shows "execute_with_retries_from try_count srv query variables partner_id max_retries w =
           (Inr v, after_requests w 1 \<lparr> req_query = query, req_variables = variables \<rparr>)"
  using assms
  by (subst execute_with_retries_from.simps)
     (auto simp: execute_gql_request_def successful_attempt_def after_requests_def
           split: sum.splits prod.splits py_error.splits)

lemma after_requests_more:
  "after_requests (after_requests w (Suc 0) r) k r = after_requests w (Suc k) r"
  by (simp add: after_requests_def replicate_append_same)

lemma sent_after_requests: "length (sent (after_requests w k r)) = length (sent w) + k"
  by (simp add: after_requests_def)

lemma retry_all_fail:
  assumes "try_count \<le> max_retries"
    and "\<forall>i \<le> nat (max_retries - try_count).
           failed_attempt (srv (length (sent w) + i) \<lparr> req_query = query, req_variables = variables \<rparr>)"
  shows "execute_with_retries_from try_count srv query variables partner_id max_retries w =
           (Inl (retries_exhausted partner_id max_retries),
            after_requests w (nat (max_retries - try_count) + 1)
              \<lparr> req_query = query, req_variables = variables \<rparr>)"
  using assms
proof (induction "nat (max_retries - try_count)" arbitrary: try_count w)
  case 0
  then have "max_retries < try_count + 1" by simp
  moreover from 0(3) [rule_format, of 0]
  have "failed_attempt (srv (length (sent w)) \<lparr> req_query = query, req_variables = variables \<rparr>)"
    by simp
  ultimately show ?case using 0 retry_step_fail [where srv = srv and w = w and query = query and variables = variables, OF 0(2)] by simp
next
  case (Suc d)
  let ?r = "\<lparr> req_query = query, req_variables = variables \<rparr>"
  from Suc have lt: "\<not> max_retries < try_count + 1" and le: "try_count + 1 \<le> max_retries"
    and d: "d = nat (max_retries - (try_count + 1))" by simp_all
  from Suc(4) [rule_format, of 0] have f0: "failed_attempt (srv (length (sent w)) ?r)" by simp
  have fs: "\<forall>i \<le> nat (max_retries - (try_count + 1)).
              failed_attempt (srv (length (sent (after_requests w 1 ?r)) + i) ?r)"
  proof (intro allI impI)
    fix i assume "i \<le> nat (max_retries - (try_count + 1))"
    then have "Suc i \<le> nat (max_retries - try_count)" using Suc(2) d by simp
    with Suc(4) have "failed_attempt (srv (length (sent w) + Suc i) ?r)" by blast
    then show "failed_attempt (srv (length (sent (after_requests w 1 ?r)) + i) ?r)"
      by (simp add: sent_after_requests)
  qed
  have "execute_with_retries_from try_count srv query variables partner_id max_retries w =
        execute_with_retries_from (try_count + 1) srv query variables partner_id max_retries
          (after_requests w 1 ?r)"
    using retry_step_fail [where srv = srv and w = w and query = query and variables = variables, OF Suc(3) f0] lt by simp
  also have "\<dots> = (Inl (retries_exhausted partner_id max_retries),
                     after_requests (after_requests w 1 ?r) (nat (max_retries - (try_count + 1)) + 1) ?r)"
    by (rule Suc(1) [OF d le fs])
  finally show ?case using d Suc(2) by (simp add: after_requests_more)
qed

lemma retry_first_success:
  assumes "try_count + int j \<le> max_retries"
    and "0 \<le> try_count"
    and "\<forall>i < j. failed_attempt (srv (length (sent w) + i) \<lparr> req_query = query, req_variables = variables \<rparr>)"
    and "successful_attempt (srv (length (sent w) + j) \<lparr> req_query = query, req_variables = variables \<rparr>) v"
  shows "execute_with_retries_from try_count srv query variables partner_id max_retries w =
           (Inr v, after_requests w (j + 1) \<lparr> req_query = query, req_variables = variables \<rparr>)"
  using assms
proof (induction j arbitrary: try_count w)
  case 0
  then show ?case using retry_step_success [of try_count max_retries srv w query variables v] by simp
next
  case (Suc j)
  let ?r = "\<lparr> req_query = query, req_variables = variables \<rparr>"
  from Suc(2) have le: "try_count \<le> max_retries" and lt: "\<not> max_retries < try_count + 1"
    and le': "(try_count + 1) + int j \<le> max_retries" by simp_all
  from Suc(4) [rule_format, of 0] have f0: "failed_attempt (srv (length (sent w)) ?r)" by simp
  have fs: "\<forall>i < j. failed_attempt (srv (length (sent (after_requests w 1 ?r)) + i) ?r)"
    using Suc(4) by (auto simp: sent_after_requests)
  have sc: "successful_attempt (srv (length (sent (after_requests w 1 ?r)) + j) ?r) v"
    using Suc(5) by (simp add: sent_after_requests)
  have "execute_with_retries_from try_count srv query variables partner_id max_retries w =
        execute_with_retries_from (try_count + 1) srv query variables partner_id max_retries
          (after_requests w 1 ?r)"
    using retry_step_fail [where srv = srv and w = w and query = query and variables = variables, OF le f0] lt by simp
  also have "\<dots> = (Inr v, after_requests (after_requests w 1 ?r) (j + 1) ?r)"
    using Suc(1) [OF le' _ fs sc] Suc(3) by simp
  finally show ?case by (simp add: after_requests_more)
qed


lemma py_get_cases: "py_get j k d = Inl AttributeError \<or> (\<exists>v. py_get j k d = Inr v)"
  by (cases j) auto

lemma attempt_cases:
  "(\<exists>e. read_response x = Inl e) \<or> failed_attempt x \<or> (\<exists>v. successful_attempt x v)"
proof (cases "read_response x")
  case (Inl e)
  then show ?thesis by simp
next
  case (Inr p)
  obtain s r where p: "p = (s, r)" by (cases p)
  from py_get_cases [of "data r" "''partner''" "JObj []"] Inr p show ?thesis
    by (auto simp: failed_attempt_def successful_attempt_def)
qed


lemma retry_step_raise:
  assumes "try_count \<le> max_retries"
    and "read_response (srv (length (sent w)) \<lparr> req_query = query, req_variables = variables \<rparr>) = Inl e"
  shows "execute_with_retries_from try_count srv query variables partner_id max_retries w =
           (Inl e, after_requests w 1 \<lparr> req_query = query, req_variables = variables \<rparr>)"
  using assms
  by (subst execute_with_retries_from.simps)
     (simp add: execute_gql_request_def after_requests_def)

lemma retry_past_bound:
  assumes "\<not> try_count \<le> max_retries"
  shows "execute_with_retries_from try_count srv query variables partner_id max_retries w =
           (Inl (Exception (''Unexpected error occurred for partner '' @ partner_id @ ''.'')), w)"
  using assms by (subst execute_with_retries_from.simps) simp


text \<open>
  Claim C3. With a retry bound \<open>max_retries \<ge> 0\<close>: if every one of the first
  \<open>max_retries + 1\<close> attempts fails, the wrapper makes exactly \<open>max_retries + 1\<close> transport calls
  and then raises the terminal error that names the partner id and the retry count; if the
  first successful attempt is the \<open>k\<close>-th, with \<open>k \<le> max_retries + 1\<close>, it makes exactly \<open>k\<close> calls
  and returns the extracted field at once.
\<close>

theorem execute_with_retries_calls:
  assumes "0 \<le> max_retries"
  shows "((\<forall>i \<le> nat max_retries.
             failed_attempt (srv (length (sent w) + i) \<lparr> req_query = query, req_variables = variables \<rparr>))
          \<longrightarrow> execute_with_retries srv query variables partner_id max_retries w
                = (Inl (Exception (''Failed to fetch data for partner '' @ partner_id
                                   @ '' after '' @ show_int max_retries @ '' retries.'')),
                   after_requests w (nat max_retries + 1)
                     \<lparr> req_query = query, req_variables = variables \<rparr>))
       \<and> (\<forall>k v. 1 \<le> k \<and> int k \<le> max_retries + 1
                \<and> (\<forall>i < k - 1.
                      failed_attempt (srv (length (sent w) + i)
                                        \<lparr> req_query = query, req_variables = variables \<rparr>))
                \<and> successful_attempt (srv (length (sent w) + (k - 1))
                                         \<lparr> req_query = query, req_variables = variables \<rparr>) v
             \<longrightarrow> execute_with_retries srv query variables partner_id max_retries w
                   = (Inr v, after_requests w k \<lparr> req_query = query, req_variables = variables \<rparr>))"
proof (intro conjI impI allI)
  assume "\<forall>i \<le> nat max_retries.
            failed_attempt (srv (length (sent w) + i) \<lparr> req_query = query, req_variables = variables \<rparr>)"
  then show "execute_with_retries srv query variables partner_id max_retries w
                = (Inl (Exception (''Failed to fetch data for partner '' @ partner_id
                                   @ '' after '' @ show_int max_retries @ '' retries.'')),
                   after_requests w (nat max_retries + 1)
                     \<lparr> req_query = query, req_variables = variables \<rparr>)"
    using retry_all_fail [where try_count = 0 and srv = srv and w = w and query = query
                            and variables = variables and max_retries = max_retries
                            and partner_id = partner_id] assms
    by (simp add: execute_with_retries_def retries_exhausted_def)
next
  fix k v
  assume h: "1 \<le> k \<and> int k \<le> max_retries + 1
                \<and> (\<forall>i < k - 1.
                      failed_attempt (srv (length (sent w) + i)
                                        \<lparr> req_query = query, req_variables = variables \<rparr>))
                \<and> successful_attempt (srv (length (sent w) + (k - 1))
                                         \<lparr> req_query = query, req_variables = variables \<rparr>) v"
  let ?r = "\<lparr> req_query = query, req_variables = variables \<rparr>"
  from h have a: "0 + int (k - 1) \<le> max_retries" by auto
  from h have b: "\<forall>i < k - 1. failed_attempt (srv (length (sent w) + i) ?r)" by blast
  from h have c: "successful_attempt (srv (length (sent w) + (k - 1)) ?r) v" by blast
  from h have d: "k - 1 + 1 = k" by simp
  have "execute_with_retries_from 0 srv query variables partner_id max_retries w
          = (Inr v, after_requests w (k - 1 + 1) ?r)"
    using a b c
    by (intro retry_first_success [where try_count = 0 and j = "k - 1" and srv = srv and w = w
                              and query = query and variables = variables and v = v
                              and partner_id = partner_id and max_retries = max_retries]) simp_all
  then show "execute_with_retries srv query variables partner_id max_retries w
          = (Inr v, after_requests w k ?r)"
    unfolding d by (simp add: execute_with_retries_def)
qed

theorem execute_with_retries_calls_witness:
  "(0::int) \<le> 3
   \<and> execute_with_retries down_server GetThirdPartyDataProviders [] ''p1'' 3 empty_world
       = (Inl (Exception ''Failed to fetch data for partner p1 after 3 retries.''),
          after_requests empty_world 4 \<lparr> req_query = GetThirdPartyDataProviders, req_variables = [] \<rparr>)
   \<and> execute_with_retries flaky_server GetThirdPartyDataProviders [] ''p1'' 3 empty_world
       = (Inr (JObj [(''name'', JStr ''p1'')]),
          after_requests empty_world 3 \<lparr> req_query = GetThirdPartyDataProviders, req_variables = [] \<rparr>)"
proof -
  have f: "\<forall>i \<le> nat 3. failed_attempt (down_server (length (sent empty_world) + i)
             \<lparr> req_query = GetThirdPartyDataProviders, req_variables = [] \<rparr>)"
    by (simp add: failed_attempt_def down_server_def read_response_def json_loads_def)
  have g: "1 \<le> (3::nat) \<and> int 3 \<le> 3 + 1
            \<and> (\<forall>i < 3 - 1. failed_attempt (flaky_server (length (sent empty_world) + i)
                   \<lparr> req_query = GetThirdPartyDataProviders, req_variables = [] \<rparr>))
            \<and> successful_attempt (flaky_server (length (sent empty_world) + (3 - 1))
                   \<lparr> req_query = GetThirdPartyDataProviders, req_variables = [] \<rparr>)
                 (JObj [(''name'', JStr ''p1'')])"
    by (simp add: failed_attempt_def successful_attempt_def flaky_server_def read_response_def
          json_loads_def empty_world_def)
  have s: "show_int 3 = ''3''"
    by code_simp
  from execute_with_retries_calls [of 3 down_server empty_world GetThirdPartyDataProviders "[]" "''p1''"] f
  have 1: "execute_with_retries down_server GetThirdPartyDataProviders [] ''p1'' 3 empty_world
       = (Inl (Exception ''Failed to fetch data for partner p1 after 3 retries.''),
          after_requests empty_world 4 \<lparr> req_query = GetThirdPartyDataProviders, req_variables = [] \<rparr>)"
    by (simp add: s)
  have t: "0 \<le> (3::int)" by simp
  note inst = execute_with_retries_calls [where max_retries = 3 and srv = flaky_server
                and w = empty_world and query = GetThirdPartyDataProviders and variables = "[]"
                and partner_id = "''p1''", OF t, THEN conjunct2, rule_format,
                where k = 3 and v = "JObj [(''name'', JStr ''p1'')]"]
  from inst [OF g]
  have 2: "execute_with_retries flaky_server GetThirdPartyDataProviders [] ''p1'' 3 empty_world
       = (Inr (JObj [(''name'', JStr ''p1'')]),
          after_requests empty_world 3 \<lparr> req_query = GetThirdPartyDataProviders, req_variables = [] \<rparr>)" .
  from 1 2 show ?thesis by simp
qed




section \<open>The multi-alias fetch loop\<close>

lemma ebind_InrE:
  assumes "ebind m f = Inr y"
  obtains x where "m = Inr x" and "f x = Inr y"
  using assms by (cases m) auto

lemma retry_sent:
  "\<exists>k. snd (execute_with_retries_from try_count srv query variables partner_id max_retries w)
         = after_requests w k \<lparr> req_query = query, req_variables = variables \<rparr>"
proof (induction "nat (max_retries + 1 - try_count)" arbitrary: try_count w)
  case 0
  then have "\<not> try_count \<le> max_retries" by simp
  then have "snd (execute_with_retries_from try_count srv query variables partner_id max_retries w)
         = after_requests w 0 \<lparr> req_query = query, req_variables = variables \<rparr>"
    by (simp add: retry_past_bound after_requests_def)
  then show ?case ..
next
  case (Suc d)
  let ?r = "\<lparr> req_query = query, req_variables = variables \<rparr>"
  let ?w = "after_requests w 1 ?r"
  from Suc(2) have le: "try_count \<le> max_retries" by simp
  from Suc(2) have d: "d = nat (max_retries + 1 - (try_count + 1))" by simp
  from Suc(1) [OF d, of ?w] obtain k where
    ih: "snd (execute_with_retries_from (try_count + 1) srv query variables partner_id max_retries ?w)
           = after_requests ?w k ?r" ..
  consider (raise) e where "read_response (srv (length (sent w)) ?r) = Inl e"
    | (fail) "failed_attempt (srv (length (sent w)) ?r)"
    | (succ) v where "successful_attempt (srv (length (sent w)) ?r) v"
    using attempt_cases by blast
  then show ?case
  proof cases
    case raise
    with le have "snd (execute_with_retries_from try_count srv query variables partner_id max_retries w)
         = after_requests w 1 ?r"
      by (simp add: retry_step_raise [where srv = srv])
    then show ?thesis ..
  next
    case fail
    show ?thesis
    proof (cases "max_retries < try_count + 1")
      case True
      with fail le have "snd (execute_with_retries_from try_count srv query variables partner_id max_retries w)
         = after_requests w 1 ?r"
        by (simp add: retry_step_fail [where srv = srv])
      then show ?thesis ..
    next
      case False
      with fail le ih have "snd (execute_with_retries_from try_count srv query variables partner_id max_retries w)
         = after_requests w (Suc k) ?r"
        by (simp add: retry_step_fail [where srv = srv] after_requests_more)
      then show ?thesis ..
    qed
  next
    case succ
    with le have "snd (execute_with_retries_from try_count srv query variables partner_id max_retries w)
         = after_requests w 1 ?r"
      by (simp add: retry_step_success [where srv = srv])
    then show ?thesis ..
  qed
qed

lemma build_query_aliases:
  "build_query partitioned_provider_list cursor_map aliases = Inr subs \<Longrightarrow> map fst subs = aliases"
proof (induction aliases arbitrary: subs)
  case Nil
  then show ?case by simp
next
  case (Cons a as)
  from Cons.prems obtain sub rest where
    s: "build_subquery partitioned_provider_list cursor_map a = Inr sub"
    and r: "build_query partitioned_provider_list cursor_map as = Inr rest"
    and e: "subs = sub # rest"
    by (auto elim!: ebind_InrE)
  from s have "fst sub = a"
    by (auto simp: build_subquery_def elim!: ebind_InrE)
  with Cons.IH [OF r] e show ?case by simp
qed

lemma process_aliases_Cons:
  assumes "process_aliases partner_data (a # as) st = Inr st'"
  obtains alias_data nodes page_info has_next_page end_cursor node_list where
    "py_get partner_data a (JObj []) = Inr alias_data"
    "py_get alias_data ''nodes'' (JArr []) = Inr nodes"
    "py_get alias_data ''pageInfo'' (JObj []) = Inr page_info"
    "py_get page_info ''hasNextPage'' (JBool False) = Inr has_next_page"
    "py_get page_info ''endCursor'' JNull = Inr end_cursor"
    "py_iter nodes = Inr node_list"
    "process_aliases partner_data as
       (st \<lparr> third_party_data_list := third_party_data_list st @ node_list,
             alias_has_more_map := AList.update a has_next_page (alias_has_more_map st),
             alias_cursor_map := AList.update a end_cursor (alias_cursor_map st) \<rparr>) = Inr st'"
  using assms by (auto elim!: ebind_InrE)

lemma process_aliases_frame:
  "process_aliases partner_data as st = Inr st' \<Longrightarrow> a \<notin> set as \<Longrightarrow>
     map_of (alias_has_more_map st') a = map_of (alias_has_more_map st) a"
proof (induction as arbitrary: st)
  case Nil
  then show ?case by simp
next
  case (Cons x xs)
  from Cons.prems(1) obtain hn ec nl where
    "process_aliases partner_data xs
       (st \<lparr> third_party_data_list := third_party_data_list st @ nl,
             alias_has_more_map := AList.update x hn (alias_has_more_map st),
             alias_cursor_map := AList.update x ec (alias_cursor_map st) \<rparr>) = Inr st'"
    by (rule process_aliases_Cons)
  from Cons.IH [OF this] Cons.prems(2) show ?case
    by (simp add: update_conv')
qed

lemma process_aliases_distinct:
  "process_aliases partner_data as st = Inr st' \<Longrightarrow> distinct (map fst (alias_has_more_map st)) \<Longrightarrow>
     distinct (map fst (alias_has_more_map st'))"
proof (induction as arbitrary: st)
  case Nil
  then show ?case by simp
next
  case (Cons x xs)
  from Cons.prems(1) obtain hn ec nl where
    "process_aliases partner_data xs
       (st \<lparr> third_party_data_list := third_party_data_list st @ nl,
             alias_has_more_map := AList.update x hn (alias_has_more_map st),
             alias_cursor_map := AList.update x ec (alias_cursor_map st) \<rparr>) = Inr st'"
    by (rule process_aliases_Cons)
  from Cons.IH [OF this] Cons.prems(2) show ?case
    by (simp add: distinct_update)
qed

lemma active_iff:
  assumes "distinct (map fst m)"
  shows "(a \<in> set (active_aliases_of m)) = (\<exists>v. map_of m a = Some v \<and> truthy v)"
  using assms by (force simp: active_aliases_of_def)

lemma fetch_round_Inr:
  assumes "fetch_round srv max_retries partner_id third_party_data_count partitioned_provider_list
             active st w = (Inr st', w')"
  obtains subs partner_data where
    "build_query partitioned_provider_list (alias_cursor_map st) active = Inr subs"
    "execute_with_retries srv (GetPartnerThirdPartyData subs)
       [(''partnerId'', JStr partner_id), (''thirdPartyDataCount'', JInt third_party_data_count)]
       partner_id max_retries w = (Inr partner_data, w')"
    "process_aliases partner_data active st = Inr st'"
  using assms
  by (auto simp: fetch_round_def split: sum.splits prod.splits)

lemma fetch_round_sent:
  assumes "fetch_round srv max_retries partner_id third_party_data_count partitioned_provider_list
             active st w = (result, w')"
  shows "\<exists>new. sent w' = sent w @ new \<and> list_all (\<lambda>request. request_aliases request = active) new"
proof (cases "build_query partitioned_provider_list (alias_cursor_map st) active")
  case (Inl e)
  with assms have "sent w' = sent w @ []" by (simp add: fetch_round_def)
  then show ?thesis by (intro exI [of _ "[]"]) simp
next
  case (Inr subs)
  let ?vars = "[(''partnerId'', JStr partner_id), (''thirdPartyDataCount'', JInt third_party_data_count)]"
  let ?r = "\<lparr> req_query = GetPartnerThirdPartyData subs, req_variables = ?vars \<rparr>"
  from Inr assms have "w' = snd (execute_with_retries srv (GetPartnerThirdPartyData subs) ?vars
                                   partner_id max_retries w)"
    by (auto simp: fetch_round_def split: sum.splits prod.splits)
  with retry_sent [of 0 srv "GetPartnerThirdPartyData subs" ?vars partner_id max_retries w]
  obtain k where "w' = after_requests w k ?r"
    by (auto simp: execute_with_retries_def)
  then have "sent w' = sent w @ replicate k ?r" by (simp add: after_requests_def)
  moreover have "request_aliases ?r = active"
    using build_query_aliases [OF Inr] by (simp add: request_aliases_def)
  ultimately show ?thesis
    by (intro exI [of _ "replicate k ?r"]) (simp add: list_all_iff)
qed

lemma fetch_loop_inactive:
  assumes "distinct (map fst (alias_has_more_map st))"
    and "map_of (alias_has_more_map st) alias = Some has_more"
    and "\<not> truthy has_more"
    and "fetch_loop fuel srv max_retries partner_id third_party_data_count partitioned_provider_list
           st w = (result, w')"
  shows "(\<exists>new. sent w' = sent w @ new
                \<and> list_all (\<lambda>request. alias \<notin> set (request_aliases request)) new)
       \<and> (\<forall>status st'. result = Inr (status, st') \<longrightarrow>
             map_of (alias_has_more_map st') alias = Some has_more
             \<and> distinct (map fst (alias_has_more_map st')))"
  using assms
proof (induction fuel arbitrary: st w)
  case 0
  from 0(4) have "w' = w" and "result = Inr (Loop_left, st) \<or> result = Inr (Fuel_exhausted, st)"
    by (subst (asm) fetch_loop.simps, auto simp: Let_def split: if_splits)+
  with 0(1,2) show ?case by auto
next
  case (Suc fuel)
  let ?active = "active_aliases_of (alias_has_more_map st)"
  have inactive: "alias \<notin> set ?active"
    using Suc(2,3,4) by (simp add: active_iff)
  show ?case
  proof (cases "list_ex truthy (map snd (alias_has_more_map st)) \<and> ?active \<noteq> []")
    case False
    with Suc(5) have "w' = w" and "result = Inr (Loop_left, st)"
      by (subst (asm) fetch_loop.simps, auto simp: Let_def split: if_splits)+
    with Suc(2,3) show ?thesis by auto
  next
    case True
    obtain r1 w1 where r1: "fetch_round srv max_retries partner_id third_party_data_count
                              partitioned_provider_list ?active st w = (r1, w1)"
      by (cases "fetch_round srv max_retries partner_id third_party_data_count
                              partitioned_provider_list ?active st w")
    from fetch_round_sent [OF r1] obtain new1 where
      n1: "sent w1 = sent w @ new1" "list_all (\<lambda>request. request_aliases request = ?active) new1"
      by blast
    from n1(2) inactive have n1': "list_all (\<lambda>request. alias \<notin> set (request_aliases request)) new1"
      by (auto simp: list_all_iff)
    show ?thesis
    proof (cases r1)
      case (Inl e)
      with Suc(5) True r1 have "result = Inl e" "w' = w1"
        by (subst (asm) fetch_loop.simps, simp add: Let_def)+
      with n1(1) n1' show ?thesis by auto
    next
      case (Inr st1)
      with Suc(5) True r1 have loop: "fetch_loop fuel srv max_retries partner_id third_party_data_count
                                  partitioned_provider_list st1 w1 = (result, w')"
        by (subst (asm) fetch_loop.simps) (simp add: Let_def)
      from r1 Inr obtain partner_data where p: "process_aliases partner_data ?active st = Inr st1"
        by (auto elim: fetch_round_Inr)
      have d1: "distinct (map fst (alias_has_more_map st1))"
        by (rule process_aliases_distinct [OF p Suc(2)])
      have m1: "map_of (alias_has_more_map st1) alias = Some has_more"
        using process_aliases_frame [OF p inactive] Suc(3) by simp
      from Suc(1) [OF d1 m1 Suc(4) loop] obtain new2 where
        n2: "sent w' = sent w1 @ new2" "list_all (\<lambda>request. alias \<notin> set (request_aliases request)) new2"
        and rest: "\<forall>status st'. result = Inr (status, st') \<longrightarrow>
             map_of (alias_has_more_map st') alias = Some has_more
             \<and> distinct (map fst (alias_has_more_map st'))"
        by blast
      from n1(1) n1' n2 have "sent w' = sent w @ (new1 @ new2)
          \<and> list_all (\<lambda>request. alias \<notin> set (request_aliases request)) (new1 @ new2)"
        by simp
      with rest show ?thesis by blast
    qed
  qed
qed

lemma process_aliases_cursor_frame:
  "process_aliases partner_data as st = Inr st' \<Longrightarrow> a \<notin> set as \<Longrightarrow>
     map_of (alias_cursor_map st') a = map_of (alias_cursor_map st) a"
proof (induction as arbitrary: st)
  case Nil
  then show ?case by simp
next
  case (Cons x xs)
  from Cons.prems(1) obtain hn ec nl where
    "process_aliases partner_data xs
       (st \<lparr> third_party_data_list := third_party_data_list st @ nl,
             alias_has_more_map := AList.update x hn (alias_has_more_map st),
             alias_cursor_map := AList.update x ec (alias_cursor_map st) \<rparr>) = Inr st'"
    by (rule process_aliases_Cons)
  from Cons.IH [OF this] Cons.prems(2) show ?case
    by (simp add: update_conv')
qed

lemma process_aliases_read:
  assumes "process_aliases partner_data as st = Inr st'"
    and "distinct as" and "a \<in> set as"
  shows "map_of (alias_has_more_map st') a
           = Some (page_info_of partner_data a ''hasNextPage'' (JBool False))
       \<and> map_of (alias_cursor_map st') a
           = Some (page_info_of partner_data a ''endCursor'' JNull)"
  using assms
proof (induction as arbitrary: st)
  case Nil
  then show ?case by simp
next
  case (Cons x xs)
  from Cons.prems(1) obtain alias_data nodes page_info hn ec nl where
    g: "py_get partner_data x (JObj []) = Inr alias_data"
       "py_get alias_data ''pageInfo'' (JObj []) = Inr page_info"
       "py_get page_info ''hasNextPage'' (JBool False) = Inr hn"
       "py_get page_info ''endCursor'' JNull = Inr ec"
    and rest: "process_aliases partner_data xs
       (st \<lparr> third_party_data_list := third_party_data_list st @ nl,
             alias_has_more_map := AList.update x hn (alias_has_more_map st),
             alias_cursor_map := AList.update x ec (alias_cursor_map st) \<rparr>) = Inr st'"
    by (rule process_aliases_Cons)
  show ?case
  proof (cases "a = x")
    case True
    with Cons.prems(2) have "a \<notin> set xs" by simp
    from process_aliases_frame [OF rest this] process_aliases_cursor_frame [OF rest this] g True
    show ?thesis by (simp add: update_conv' page_info_of_def)
  next
    case False
    with Cons.prems have "distinct xs" "a \<in> set xs" by simp_all
    from Cons.IH [OF rest this] show ?thesis .
  qed
qed

lemma distinct_active:
  "distinct (map fst m) \<Longrightarrow> distinct (active_aliases_of m)"
  by (simp add: active_aliases_of_def distinct_map_filter)

text \<open>
  Claim C5, as the script has it. An alias that was active in a round is active in the next
  round exactly when the \<^verbatim>\<open>hasNextPage\<close> the round read for it from the response is true (in
  Python's sense; absent counts as false): a false \<^verbatim>\<open>hasNextPage\<close> removes the alias from the
  next active set. The end cursor read in the round is stored and plays no part in that.
\<close>

theorem has_next_page_decides_activity:
  assumes "distinct (map fst (alias_has_more_map st))"
    and "fetch_round srv max_retries partner_id third_party_data_count partitioned_provider_list
           (active_aliases_of (alias_has_more_map st)) st w = (Inr st', w')"
    and "alias \<in> set (active_aliases_of (alias_has_more_map st))"
  shows "\<exists>subs partner_data.
           execute_with_retries srv (GetPartnerThirdPartyData subs)
             [(''partnerId'', JStr partner_id), (''thirdPartyDataCount'', JInt third_party_data_count)]
             partner_id max_retries w = (Inr partner_data, w')
         \<and> (alias \<in> set (active_aliases_of (alias_has_more_map st')))
             = truthy (page_info_of partner_data alias ''hasNextPage'' (JBool False))
         \<and> map_of (alias_cursor_map st') alias
             = Some (page_info_of partner_data alias ''endCursor'' JNull)"
proof -
  from assms(2) obtain subs partner_data where
    e: "execute_with_retries srv (GetPartnerThirdPartyData subs)
          [(''partnerId'', JStr partner_id), (''thirdPartyDataCount'', JInt third_party_data_count)]
          partner_id max_retries w = (Inr partner_data, w')"
    and p: "process_aliases partner_data (active_aliases_of (alias_has_more_map st)) st = Inr st'"
    by (rule fetch_round_Inr)
  have d': "distinct (map fst (alias_has_more_map st'))"
    by (rule process_aliases_distinct [OF p assms(1)])
  from process_aliases_read [OF p distinct_active [OF assms(1)] assms(3)]
  have r: "map_of (alias_has_more_map st') alias
             = Some (page_info_of partner_data alias ''hasNextPage'' (JBool False))"
    and c: "map_of (alias_cursor_map st') alias
             = Some (page_info_of partner_data alias ''endCursor'' JNull)"
    by simp_all
  from r have "(alias \<in> set (active_aliases_of (alias_has_more_map st')))
             = truthy (page_info_of partner_data alias ''hasNextPage'' (JBool False))"
    by (simp add: active_iff [OF d'])
  with e c show ?thesis by blast
qed

theorem has_next_page_decides_activity_witness:
  "\<exists>subs partner_data.
     execute_with_retries (paged_upstream example_pages) (GetPartnerThirdPartyData subs)
       [(''partnerId'', JStr ''p1''), (''thirdPartyDataCount'', JInt 1000)] ''p1'' 3 empty_world
       = (Inr partner_data, after_requests empty_world 1 example_request_1)
     \<and> (''mygroup_2_alias'' \<in> set (active_aliases_of (alias_has_more_map example_state_1)))
         = truthy (page_info_of partner_data ''mygroup_2_alias'' ''hasNextPage'' (JBool False))
     \<and> map_of (alias_cursor_map example_state_1) ''mygroup_2_alias''
         = Some (page_info_of partner_data ''mygroup_2_alias'' ''endCursor'' JNull)
     \<and> ''mygroup_2_alias'' \<notin> set (active_aliases_of (alias_has_more_map example_state_1))"
proof -
  have d: "distinct (map fst (alias_has_more_map (initial_fetch_state example_groups)))"
    by code_simp
  have r: "fetch_round (paged_upstream example_pages) 3 ''p1'' 1000 example_groups
     (active_aliases_of (alias_has_more_map (initial_fetch_state example_groups)))
     (initial_fetch_state example_groups) empty_world
   = (Inr example_state_1, after_requests empty_world 1 example_request_1)"
    by code_simp
  have a: "''mygroup_2_alias''
             \<in> set (active_aliases_of (alias_has_more_map (initial_fetch_state example_groups)))"
    by code_simp
  have n: "''mygroup_2_alias'' \<notin> set (active_aliases_of (alias_has_more_map example_state_1))"
    by code_simp
  from has_next_page_decides_activity [OF d r a] n show ?thesis by blast
qed

text \<open>
  Claim C5 as stated fails: a response with a null end cursor and \<^verbatim>\<open>hasNextPage = true\<close> leaves
  the alias active. After the first round its cursor is null, and the second round asks for it
  again.
\<close>

theorem null_cursor_stays_active_counterexample:
  "fetch_loop 2 null_cursor_server 3 ''p1'' 1000 [[JStr ''a'']] (initial_fetch_state [[JStr ''a'']])
     empty_world
   = (Inr (Fuel_exhausted,
           \<lparr> third_party_data_list = [JStr ''n'', JStr ''n''],
             alias_has_more_map = [(''mygroup_1_alias'', JBool True)],
             alias_cursor_map = [(''mygroup_1_alias'', JNull)] \<rparr>),
      after_requests empty_world 2
        \<lparr> req_query = GetPartnerThirdPartyData [(''mygroup_1_alias'', JNull, [JStr ''a''])],
          req_variables = [(''partnerId'', JStr ''p1''), (''thirdPartyDataCount'', JInt 1000)] \<rparr>)"
  by code_simp

text \<open>
  Claim C6. Once \<^verbatim>\<open>alias_has_more\<close> is false for an alias, it stays so in every later round,
  and no combined query built from then on contains the alias: whatever number of further
  rounds the loop runs from such a state, and however it ends.
\<close>

theorem alias_has_more_monotone:
  assumes "distinct (map fst (alias_has_more_map st))"
    and "map_of (alias_has_more_map st) alias = Some has_more"
    and "\<not> truthy has_more"
    and "fetch_loop fuel srv max_retries partner_id third_party_data_count partitioned_provider_list
           st w = (result, w')"
  shows "take (length (sent w)) (sent w') = sent w
       \<and> list_all (\<lambda>request. alias \<notin> set (request_aliases request))
                  (drop (length (sent w)) (sent w'))
       \<and> (\<forall>status st'. result = Inr (status, st') \<longrightarrow>
             map_of (alias_has_more_map st') alias = Some has_more
             \<and> alias \<notin> set (active_aliases_of (alias_has_more_map st')))"
proof -
  from fetch_loop_inactive [OF assms] obtain new where
    n: "sent w' = sent w @ new" "list_all (\<lambda>request. alias \<notin> set (request_aliases request)) new"
    and rest: "\<forall>status st'. result = Inr (status, st') \<longrightarrow>
             map_of (alias_has_more_map st') alias = Some has_more
             \<and> distinct (map fst (alias_has_more_map st'))"
    by blast
  from rest assms(3) have "\<forall>status st'. result = Inr (status, st') \<longrightarrow>
             map_of (alias_has_more_map st') alias = Some has_more
             \<and> alias \<notin> set (active_aliases_of (alias_has_more_map st'))"
    by (auto simp: active_iff)
  with n show ?thesis by simp
qed

theorem alias_has_more_monotone_witness:
  "fetch_loop 5 (paged_upstream example_pages) 3 ''p1'' 1000 example_groups example_state_1
     (after_requests empty_world 1 example_request_1)
     = (Inr (Loop_left, example_state_3),
        empty_world \<lparr> sent := [example_request_1, example_request_2, example_request_3] \<rparr>)
   \<and> list_all (\<lambda>request. ''mygroup_2_alias'' \<notin> set (request_aliases request))
        (drop (length (sent (after_requests empty_world 1 example_request_1)))
           [example_request_1, example_request_2, example_request_3])
   \<and> map_of (alias_has_more_map example_state_3) ''mygroup_2_alias'' = Some (JBool False)"
proof -
  have d: "distinct (map fst (alias_has_more_map example_state_1))"
    by code_simp
  have m: "map_of (alias_has_more_map example_state_1) ''mygroup_2_alias'' = Some (JBool False)"
    by code_simp
  have t: "\<not> truthy (JBool False)" by simp
  have r: "fetch_loop 5 (paged_upstream example_pages) 3 ''p1'' 1000 example_groups example_state_1
     (after_requests empty_world 1 example_request_1)
     = (Inr (Loop_left, example_state_3),
        empty_world \<lparr> sent := [example_request_1, example_request_2, example_request_3] \<rparr>)"
    by code_simp
  from alias_has_more_monotone [OF d m t r] r show ?thesis by simp
qed

section \<open>Alias labels\<close>

lemma digit_char_props:
  assumes "d < 10"
  shows "is_digit (digit_char d)" and "digit_val (digit_char d) = d"
  using assms by (simp_all add: is_digit_def digit_val_def digit_char_def)

lemma is_digit_not_underscore: "is_digit c \<Longrightarrow> c \<noteq> CHR ''_''"
  by (auto simp: is_digit_def)

lemma show_nat_digits: "list_all is_digit (show_nat n)"
proof (induction n rule: show_nat.induct)
  case (1 n)
  show ?case
  proof (cases "n < 10")
    case True
    then show ?thesis by (subst show_nat.simps) (simp add: digit_char_props)
  next
    case False
    with 1 show ?thesis by (subst show_nat.simps) (simp add: digit_char_props)
  qed
qed

lemma show_nat_nonempty: "show_nat n \<noteq> []"
  by (subst show_nat.simps) simp

lemma show_nat_value: "foldl (\<lambda>a c. 10 * a + digit_val c) 0 (show_nat n) = n"
proof (induction n rule: show_nat.induct)
  case (1 n)
  show ?case
  proof (cases "n < 10")
    case True
    then show ?thesis by (subst show_nat.simps) (simp add: digit_char_props)
  next
    case False
    with 1 show ?thesis by (subst show_nat.simps) (simp add: digit_char_props)
  qed
qed

lemma int_of_string_show_nat: "int_of_string (show_nat n) = Inr (int n)"
  by (simp add: int_of_string_def show_nat_digits show_nat_nonempty show_nat_value)

lemma split_on_no_sep: "sep \<notin> set xs \<Longrightarrow> split_on sep xs = [xs]"
  by (induction xs) auto

lemma split_on_first: "sep \<notin> set xs \<Longrightarrow> split_on sep (xs @ sep # ys) = xs # split_on sep ys"
  by (induction xs) auto

lemma show_nat_no_underscore: "CHR ''_'' \<notin> set (show_nat n)"
  using show_nat_digits [of n] is_digit_not_underscore by (auto simp: list_all_iff)

lemma split_alias_label:
  "split_on CHR ''_'' (alias_label idx) = [''mygroup'', show_nat (idx + 1), ''alias'']"
proof -
  have 1: "split_on CHR ''_'' (''mygroup'' @ CHR ''_'' # rest) = ''mygroup'' # split_on CHR ''_'' rest"
    for rest by (rule split_on_first) simp
  have 2: "split_on CHR ''_'' (show_nat (idx + 1) @ CHR ''_'' # ''alias'')
             = show_nat (idx + 1) # split_on CHR ''_'' ''alias''"
    by (rule split_on_first) (rule show_nat_no_underscore)
  have 3: "split_on CHR ''_'' ''alias'' = [''alias'']"
    by (rule split_on_no_sep) simp
  have "alias_label idx = ''mygroup'' @ CHR ''_'' # (show_nat (idx + 1) @ CHR ''_'' # ''alias'')"
    by (simp add: alias_label_def)
  then show ?thesis by (simp only: 1 2 3)
qed

lemma alias_label_inj: "alias_label i = alias_label j \<Longrightarrow> i = j"
proof -
  assume "alias_label i = alias_label j"
  then have "split_on CHR ''_'' (alias_label i) = split_on CHR ''_'' (alias_label j)" by simp
  then have "show_nat (i + 1) = show_nat (j + 1)" by (simp only: split_alias_label list.inject)
  then have "foldl (\<lambda>a c. 10 * a + digit_val c) 0 (show_nat (i + 1))
           = foldl (\<lambda>a c. 10 * a + digit_val c) 0 (show_nat (j + 1))" by simp
  then show "i = j" by (simp add: show_nat_value)
qed

lemma build_subquery_label:
  assumes "idx < length partitioned_provider_list"
    and "map_of cursor_map (alias_label idx) = Some cursor"
  shows "build_subquery partitioned_provider_list cursor_map (alias_label idx)
           = Inr (alias_label idx, cursor, partitioned_provider_list ! idx)"
  using assms
  by (simp add: build_subquery_def split_alias_label py_nth_def int_of_string_show_nat dict_index_def)

section \<open>Dicts built over distinct keys\<close>

lemma update_fresh: "k \<notin> fst ` set al \<Longrightarrow> AList.update k v al = al @ [(k, v)]"
  by (induction al) auto

lemma fold_update_distinct:
  "distinct (map fst (acc @ kvs)) \<Longrightarrow>
     fold (\<lambda>kv d. AList.update (fst kv) (snd kv) d) kvs acc = acc @ kvs"
proof (induction kvs arbitrary: acc)
  case Nil
  then show ?case by simp
next
  case (Cons kv kvs)
  from Cons.prems have fresh: "fst kv \<notin> fst ` set acc" by auto
  from Cons.prems have "distinct (map fst ((acc @ [kv]) @ kvs))" by simp
  from Cons.IH [OF this] fresh show ?case
    by (simp add: update_fresh)
qed

lemma dict_of_distinct: "distinct (map fst kvs) \<Longrightarrow> dict_of kvs = kvs"
  using fold_update_distinct [of "[]" kvs] by (simp add: dict_of_def)

lemma distinct_labels: "distinct (map (\<lambda>k. alias_label k) [0 ..< n])"
  by (simp add: distinct_map inj_on_def alias_label_inj)

lemma map_of_labels:
  "k \<in> set ks \<Longrightarrow> map_of (map (\<lambda>k. (alias_label k, f k)) ks) (alias_label k) = Some (f k)"
  by (induction ks) (auto dest: alias_label_inj)

lemma update_labels:
  "x \<in> set ks \<Longrightarrow> distinct ks \<Longrightarrow>
     AList.update (alias_label x) v (map (\<lambda>k. (alias_label k, h k)) ks)
       = map (\<lambda>k. (alias_label k, if k = x then v else h k)) ks"
proof (induction ks)
  case Nil
  then show ?case by simp
next
  case (Cons y ys)
  show ?case
  proof (cases "y = x")
    case True
    with Cons.prems have "x \<notin> set ys" by simp
    then have "map (\<lambda>k. (alias_label k, if k = x then v else h k)) ys
                 = map (\<lambda>k. (alias_label k, h k)) ys"
      by (intro map_cong) auto
    with True show ?thesis by simp
  next
    case False
    with Cons.prems have "x \<in> set ys" "distinct ys" by simp_all
    from Cons.IH [OF this] False show ?thesis
      by (auto dest: alias_label_inj)
  qed
qed

section \<open>The maximum page count\<close>

lemma foldr_max_ge: "x \<in> set xs \<Longrightarrow> x \<le> foldr max xs (0::nat)"
  by (induction xs) auto

lemma foldr_max_attained: "r < foldr max xs (0::nat) \<Longrightarrow> \<exists>x \<in> set xs. r < x"
  by (induction xs) (auto simp: max_def split: if_splits)

lemma pages_le_rounds:
  "k < length groups \<Longrightarrow> length (pages_of (groups ! k)) \<le> rounds_needed pages_of groups"
  unfolding rounds_needed_def by (rule foldr_max_ge) simp

lemma rounds_attained:
  assumes "r < rounds_needed pages_of groups"
  shows "\<exists>k < length groups. r < length (pages_of (groups ! k))"
proof -
  from foldr_max_attained [OF assms [unfolded rounds_needed_def]]
  obtain g where "g \<in> set groups" "r < length (pages_of g)" by auto
  then show ?thesis by (auto simp: in_set_conv_nth)
qed

section \<open>The starting state\<close>

lemma initial_is_paged_state:
  assumes "\<forall>g \<in> set groups. pages_of g \<noteq> []"
  shows "initial_fetch_state groups = paged_state pages_of groups 0"
proof -
  let ?hm = "map (\<lambda>idx. (alias_label idx, JBool True)) [0 ..< length groups]"
  have d: "distinct (map fst ?hm)"
    using distinct_labels [of "length groups"] by (simp add: o_def)
  have hm: "dict_of ?hm = ?hm" by (rule dict_of_distinct [OF d])
  have d2: "distinct (map fst (map (\<lambda>kv. (fst kv, JNull)) ?hm))"
    using distinct_labels [of "length groups"] by (simp add: o_def)
  have cm: "dict_of (map (\<lambda>kv. (fst kv, JNull)) ?hm) = map (\<lambda>kv. (fst kv, JNull)) ?hm"
    by (rule dict_of_distinct [OF d2])
  have t: "?hm = map (\<lambda>k. (alias_label k, JBool (0 < length (pages_of (groups ! k)))))
                     [0 ..< length groups]"
    using assms by (intro map_cong) auto
  show ?thesis
    unfolding initial_fetch_state_def Let_def hm cm
    by (simp add: paged_state_def paged_cursor_def t o_def)
qed

section \<open>One round against the paginating upstream\<close>

lemma active_paged:
  "active_aliases_of (alias_has_more_map (paged_state pages_of groups r))
     = map alias_label (filter (\<lambda>k. r < length (pages_of (groups ! k))) [0 ..< length groups])"
  by (simp add: active_aliases_of_def paged_state_def filter_map o_def)

lemma build_query_labels:
  assumes "\<forall>k \<in> set ks. k < length groups"
  shows "build_query groups (map (\<lambda>k. (alias_label k, c k)) [0 ..< length groups]) (map alias_label ks)
           = Inr (map (\<lambda>k. (alias_label k, c k, groups ! k)) ks)"
  using assms
proof (induction ks)
  case Nil
  then show ?case by simp
next
  case (Cons k ks)
  then have k: "k < length groups" by simp
  then have "map_of (map (\<lambda>k. (alias_label k, c k)) [0 ..< length groups]) (alias_label k) = Some (c k)"
    by (intro map_of_labels) simp
  from build_subquery_label [OF k this] Cons show ?case by simp
qed

lemma retry_paged:
  assumes "0 \<le> max_retries"
  shows "execute_with_retries (paged_upstream pages_of) (GetPartnerThirdPartyData subs) variables
           partner_id max_retries w
         = (Inr (JObj (map (\<lambda>(alias, after, provider_group).
                              (alias, page_json (pages_of provider_group) after)) subs)),
            after_requests w 1
              \<lparr> req_query = GetPartnerThirdPartyData subs, req_variables = variables \<rparr>)"
  unfolding execute_with_retries_def
  by (rule retry_step_success [OF assms])
     (simp add: successful_attempt_def paged_upstream_def read_response_def json_loads_def)

lemma page_json_paged:
  assumes "r < length pages"
  shows "page_json pages (paged_cursor (length pages) r)
           = JObj [(''nodes'', JArr (pages ! r)),
                   (''pageInfo'', JObj [(''hasNextPage'', JBool (r + 1 < length pages)),
                                        (''endCursor'', paged_cursor (length pages) (r + 1))])]"
  using assms by (cases "r = 0") (simp_all add: page_json_def paged_cursor_def)

lemma process_labels:
  assumes "\<forall>k \<in> set ks. k < n"
    and "distinct ks"
    and "\<forall>k \<in> set ks. py_get partner_data (alias_label k) (JObj [])
            = Inr (JObj [(''nodes'', JArr (nodes k)),
                         (''pageInfo'', JObj [(''hasNextPage'', hn k), (''endCursor'', ec k)])])"
  shows "process_aliases partner_data (map alias_label ks)
           \<lparr> third_party_data_list = l,
             alias_has_more_map = map (\<lambda>k. (alias_label k, h k)) [0 ..< n],
             alias_cursor_map = map (\<lambda>k. (alias_label k, c k)) [0 ..< n] \<rparr>
         = Inr \<lparr> third_party_data_list = l @ concat (map nodes ks),
                 alias_has_more_map = map (\<lambda>k. (alias_label k, if k \<in> set ks then hn k else h k)) [0 ..< n],
                 alias_cursor_map = map (\<lambda>k. (alias_label k, if k \<in> set ks then ec k else c k)) [0 ..< n] \<rparr>"
  using assms
proof (induction ks arbitrary: l h c)
  case Nil
  then show ?case by simp
next
  case (Cons x xs)
  from Cons.prems have x: "x \<in> set [0 ..< n]" and dn: "distinct [0 ..< n]" by simp_all
  from Cons.prems have xs: "\<forall>k \<in> set xs. k < n" "distinct xs" "x \<notin> set xs" by simp_all
  from Cons.prems(3) have px: "py_get partner_data (alias_label x) (JObj [])
            = Inr (JObj [(''nodes'', JArr (nodes x)),
                         (''pageInfo'', JObj [(''hasNextPage'', hn x), (''endCursor'', ec x)])])"
    and pxs: "\<forall>k \<in> set xs. py_get partner_data (alias_label k) (JObj [])
            = Inr (JObj [(''nodes'', JArr (nodes k)),
                         (''pageInfo'', JObj [(''hasNextPage'', hn k), (''endCursor'', ec k)])])"
    by simp_all
  have step: "process_aliases partner_data (map alias_label (x # xs))
           \<lparr> third_party_data_list = l,
             alias_has_more_map = map (\<lambda>k. (alias_label k, h k)) [0 ..< n],
             alias_cursor_map = map (\<lambda>k. (alias_label k, c k)) [0 ..< n] \<rparr>
        = process_aliases partner_data (map alias_label xs)
           \<lparr> third_party_data_list = l @ nodes x,
             alias_has_more_map = map (\<lambda>k. (alias_label k, if k = x then hn x else h k)) [0 ..< n],
             alias_cursor_map = map (\<lambda>k. (alias_label k, if k = x then ec x else c k)) [0 ..< n] \<rparr>"
    by (simp add: px update_labels [OF x dn])
  have hm: "map (\<lambda>k. (alias_label k, if k \<in> set xs then hn k else if k = x then hn x else h k)) [0 ..< n]
          = map (\<lambda>k. (alias_label k, if k \<in> set (x # xs) then hn k else h k)) [0 ..< n]"
    by (intro map_cong) auto
  have cm: "map (\<lambda>k. (alias_label k, if k \<in> set xs then ec k else if k = x then ec x else c k)) [0 ..< n]
          = map (\<lambda>k. (alias_label k, if k \<in> set (x # xs) then ec k else c k)) [0 ..< n]"
    by (intro map_cong) auto
  show ?case
    unfolding step Cons.IH [OF xs(1,2) pxs] hm cm by simp
qed

lemma concat_map_filter_if:
  "concat (map f (filter P xs)) = concat (map (\<lambda>x. if P x then f x else []) xs)"
  by (induction xs) auto

lemma fetch_round_paged:
  assumes "0 \<le> max_retries"
  shows "fetch_round (paged_upstream pages_of) max_retries partner_id third_party_data_count groups
           (active_aliases_of (alias_has_more_map (paged_state pages_of groups r)))
           (paged_state pages_of groups r) w
         = (Inr (paged_state pages_of groups (r + 1)),
            after_requests w 1 (paged_request partner_id third_party_data_count pages_of groups r))"
proof -
  let ?n = "length groups"
  let ?p = "\<lambda>k. length (pages_of (groups ! k))"
  let ?act = "filter (\<lambda>k. r < ?p k) [0 ..< ?n]"
  let ?c = "\<lambda>k. paged_cursor (?p k) r"
  let ?subs = "map (\<lambda>k. (alias_label k, ?c k, groups ! k)) ?act"
  let ?vars = "[(''partnerId'', JStr partner_id), (''thirdPartyDataCount'', JInt third_party_data_count)]"
  let ?pd = "JObj (map (\<lambda>(alias, after, provider_group).
                          (alias, page_json (pages_of provider_group) after)) ?subs)"
  have act: "\<forall>k \<in> set ?act. k < ?n" by simp
  have bq: "build_query groups (alias_cursor_map (paged_state pages_of groups r)) (map alias_label ?act)
              = Inr ?subs"
    using build_query_labels [OF act, of ?c] by (simp add: paged_state_def)
  have pd: "?pd = JObj (map (\<lambda>k. (alias_label k, page_json (pages_of (groups ! k)) (?c k))) ?act)"
    by (simp add: o_def)
  have get: "\<forall>k \<in> set ?act. py_get ?pd (alias_label k) (JObj [])
            = Inr (JObj [(''nodes'', JArr (pages_of (groups ! k) ! r)),
                         (''pageInfo'', JObj [(''hasNextPage'', JBool (r + 1 < ?p k)),
                                              (''endCursor'', paged_cursor (?p k) (r + 1))])])"
  proof
    fix k assume k: "k \<in> set ?act"
    then have "r < ?p k" by simp
    have m: "map_of (map (\<lambda>k. (alias_label k, page_json (pages_of (groups ! k)) (?c k))) ?act)
               (alias_label k) = Some (page_json (pages_of (groups ! k)) (?c k))"
      by (rule map_of_labels [OF k])
    show "py_get ?pd (alias_label k) (JObj [])
            = Inr (JObj [(''nodes'', JArr (pages_of (groups ! k) ! r)),
                         (''pageInfo'', JObj [(''hasNextPage'', JBool (r + 1 < ?p k)),
                                              (''endCursor'', paged_cursor (?p k) (r + 1))])])"
      unfolding pd py_get.simps m page_json_paged [OF \<open>r < ?p k\<close>] by simp
  qed
  have dact: "distinct ?act" by simp
  have st: "paged_state pages_of groups r =
              \<lparr> third_party_data_list = third_party_data_list (paged_state pages_of groups r),
                alias_has_more_map = map (\<lambda>k. (alias_label k, JBool (r < ?p k))) [0 ..< ?n],
                alias_cursor_map = map (\<lambda>k. (alias_label k, ?c k)) [0 ..< ?n] \<rparr>"
    by (simp add: paged_state_def)
  have hm: "map (\<lambda>k. (alias_label k, if k \<in> set ?act then JBool (r + 1 < ?p k) else JBool (r < ?p k)))
                [0 ..< ?n]
          = map (\<lambda>k. (alias_label k, JBool (r + 1 < ?p k))) [0 ..< ?n]"
    by (intro map_cong) auto
  have cm: "map (\<lambda>k. (alias_label k, if k \<in> set ?act then paged_cursor (?p k) (r + 1) else ?c k))
                [0 ..< ?n]
          = map (\<lambda>k. (alias_label k, paged_cursor (?p k) (r + 1))) [0 ..< ?n]"
    by (intro map_cong) (auto simp: paged_cursor_def)
  have nodes: "concat (map (\<lambda>k. pages_of (groups ! k) ! r) ?act)
             = concat (map (\<lambda>g. if r < length (pages_of g) then pages_of g ! r else []) groups)"
  proof -
    have "concat (map (\<lambda>k. pages_of (groups ! k) ! r) ?act)
        = concat (map (\<lambda>k. if r < ?p k then pages_of (groups ! k) ! r else []) [0 ..< ?n])"
      by (rule concat_map_filter_if)
    also have "map (\<lambda>k. if r < ?p k then pages_of (groups ! k) ! r else []) [0 ..< ?n]
             = map (\<lambda>g. if r < length (pages_of g) then pages_of g ! r else []) (map (\<lambda>k. groups ! k) [0 ..< ?n])"
      by (simp add: o_def)
    also have "map (\<lambda>k. groups ! k) [0 ..< ?n] = groups" by (rule map_nth)
    finally show ?thesis .
  qed
  have pr: "process_aliases ?pd (map alias_label ?act) (paged_state pages_of groups r)
              = Inr (paged_state pages_of groups (r + 1))"
    apply (subst st)
    apply (subst process_labels [OF act dact get])
    unfolding hm cm nodes
    apply (simp add: paged_state_def)
    done
  have rt: "execute_with_retries (paged_upstream pages_of) (GetPartnerThirdPartyData ?subs) ?vars
              partner_id max_retries w
            = (Inr ?pd, after_requests w 1
                 \<lparr> req_query = GetPartnerThirdPartyData ?subs, req_variables = ?vars \<rparr>)"
    by (rule retry_paged [OF assms])
  have rq: "\<lparr> req_query = GetPartnerThirdPartyData ?subs, req_variables = ?vars \<rparr>
              = paged_request partner_id third_party_data_count pages_of groups r"
    by (simp add: paged_request_def)
  show ?thesis
    unfolding fetch_round_def active_paged bq sum.case rt prod.case pr rq by simp
qed

section \<open>The whole loop against the paginating upstream\<close>

lemma more_paged:
  "list_ex truthy (map snd (alias_has_more_map (paged_state pages_of groups r)))
     = (r < rounds_needed pages_of groups)"
proof
  assume "list_ex truthy (map snd (alias_has_more_map (paged_state pages_of groups r)))"
  then obtain k where "k < length groups" "r < length (pages_of (groups ! k))"
    by (auto simp: paged_state_def list_ex_iff)
  with pages_le_rounds [of k groups pages_of] show "r < rounds_needed pages_of groups" by simp
next
  assume "r < rounds_needed pages_of groups"
  from rounds_attained [OF this] show "list_ex truthy (map snd (alias_has_more_map (paged_state pages_of groups r)))"
    by (auto simp: paged_state_def list_ex_iff)
qed

lemma active_nonempty_paged:
  assumes "r < rounds_needed pages_of groups"
  shows "active_aliases_of (alias_has_more_map (paged_state pages_of groups r)) \<noteq> []"
proof -
  from rounds_attained [OF assms] obtain k where "k < length groups" "r < length (pages_of (groups ! k))"
    by blast
  then have "k \<in> set (filter (\<lambda>k. r < length (pages_of (groups ! k))) [0 ..< length groups])" by simp
  then show ?thesis unfolding active_paged by (auto simp del: set_filter)
qed

lemma sent_update_id: "w \<lparr> sent := sent w @ [] \<rparr> = w"
  by simp

lemma fetch_loop_paged:
  assumes "0 \<le> max_retries"
    and "r \<le> rounds_needed pages_of groups"
  shows "fetch_loop fuel (paged_upstream pages_of) max_retries partner_id third_party_data_count groups
           (paged_state pages_of groups r) w
         = (if rounds_needed pages_of groups - r \<le> fuel
            then (Inr (Loop_left, paged_state pages_of groups (rounds_needed pages_of groups)),
                  w \<lparr> sent := sent w @ map (paged_request partner_id third_party_data_count pages_of groups)
                                           [r ..< rounds_needed pages_of groups] \<rparr>)
            else (Inr (Fuel_exhausted, paged_state pages_of groups (r + fuel)),
                  w \<lparr> sent := sent w @ map (paged_request partner_id third_party_data_count pages_of groups)
                                           [r ..< r + fuel] \<rparr>))"
  using assms(2)
proof (induction fuel arbitrary: r w)
  case 0
  show ?case
  proof (cases "r < rounds_needed pages_of groups")
    case True
    then show ?thesis
      by (subst fetch_loop.simps) (simp add: more_paged active_nonempty_paged Let_def)
  next
    case False
    with 0 have "r = rounds_needed pages_of groups" by simp
    then show ?thesis
      by (subst fetch_loop.simps) (simp add: more_paged)
  qed
next
  case (Suc fuel)
  let ?M = "rounds_needed pages_of groups"
  let ?req = "paged_request partner_id third_party_data_count pages_of groups"
  show ?case
  proof (cases "r < ?M")
    case False
    with Suc.prems have "r = ?M" by simp
    then show ?thesis
      by (subst fetch_loop.simps) (simp add: more_paged)
  next
    case True
    let ?w1 = "after_requests w 1 (?req r)"
    from True have le: "r + 1 \<le> ?M" by simp
    have unfold: "fetch_loop (Suc fuel) (paged_upstream pages_of) max_retries partner_id
                    third_party_data_count groups (paged_state pages_of groups r) w
                = fetch_loop fuel (paged_upstream pages_of) max_retries partner_id
                    third_party_data_count groups (paged_state pages_of groups (r + 1)) ?w1"
      using True
      by (subst fetch_loop.simps)
         (simp add: more_paged active_nonempty_paged Let_def fetch_round_paged [OF assms(1)])
    have s1: "sent ?w1 = sent w @ [?req r]" by (simp add: after_requests_def)
    have u1: "[r ..< ?M] = r # [r + 1 ..< ?M]" using True by (simp add: upt_conv_Cons)
    have u2: "[r ..< r + Suc fuel] = r # [r + 1 ..< r + 1 + fuel]" by (simp add: upt_conv_Cons)
    have w1: "?w1 \<lparr> sent := sent ?w1 @ xs \<rparr> = w \<lparr> sent := sent w @ ?req r # xs \<rparr>" for xs
      by (simp add: after_requests_def)
    have c: "(?M - (r + 1) \<le> fuel) = (?M - r \<le> Suc fuel)" using True by auto
    show ?thesis
      unfolding unfold Suc.IH [OF le] c u1 u2 list.map w1 by simp
  qed
qed

text \<open>
  Claim C2. Let the upstream hold, for every provider group, a fixed non-empty list of pages
  (the last one with \<^verbatim>\<open>hasNextPage = false\<close>), and let \<open>max_retries \<ge> 0\<close>. Then the fetch loop of
  \<^verbatim>\<open>get_partner_third_party_data\<close> ends after exactly \<open>max(p_1..p_N)\<close> rounds: with that much fuel
  or more it returns, having sent exactly one combined query per round, and with less it is
  still running. What it appends to the accumulator is all pages of all aliases, round by
  round, in alias order within each round.
\<close>

theorem multi_alias_fetch_rounds:
  assumes "0 \<le> max_retries"
    and "\<forall>provider_group \<in> set partitioned_provider_list. pages_of provider_group \<noteq> []"
  shows "get_partner_third_party_data fuel (paged_upstream pages_of) max_retries partner_id
           third_party_data_count partitioned_provider_list w
         = (if rounds_needed pages_of partitioned_provider_list \<le> fuel
            then Some (Inr (),
                   w \<lparr> sent := sent w @ map (paged_request partner_id third_party_data_count pages_of
                                                partitioned_provider_list)
                                            [0 ..< rounds_needed pages_of partitioned_provider_list],
                       total_third_party_data_list :=
                         total_third_party_data_list w
                           @ round_major (map pages_of partitioned_provider_list) \<rparr>)
            else None)"
proof -
  let ?M = "rounds_needed pages_of partitioned_provider_list"
  have acc: "third_party_data_list (paged_state pages_of partitioned_provider_list ?M)
               = round_major (map pages_of partitioned_provider_list)"
    by (simp add: paged_state_def round_major_def rounds_needed_def o_def)
  show ?thesis
    unfolding get_partner_third_party_data_def initial_is_paged_state [OF assms(2)]
      fetch_loop_paged [OF assms(1), of 0 pages_of partitioned_provider_list, simplified]
    by (simp add: acc)
qed

theorem multi_alias_fetch_rounds_witness:
  "rounds_needed example_pages example_groups = 3
   \<and> get_partner_third_party_data 3 (paged_upstream example_pages) 3 ''p1'' 1000 example_groups
       empty_world
     = Some (Inr (),
         empty_world \<lparr> sent := [example_request_1, example_request_2, example_request_3],
           total_third_party_data_list :=
             [JStr ''a1'', JStr ''b1'', JStr ''x1'', JStr ''a2'', JStr ''x2'', JStr ''x3''] \<rparr>)
   \<and> get_partner_third_party_data 2 (paged_upstream example_pages) 3 ''p1'' 1000 example_groups
       empty_world = None"
proof -
  have h1: "(0::int) \<le> 3" by simp
  have h2: "\<forall>provider_group \<in> set example_groups. example_pages provider_group \<noteq> []"
    by (simp add: example_groups_def example_pages_def)
  have m: "rounds_needed example_pages example_groups = 3" by code_simp
  have q: "map (paged_request ''p1'' 1000 example_pages example_groups) [0 ..< 3]
             = [example_request_1, example_request_2, example_request_3]"
    by code_simp
  have t: "round_major (map example_pages example_groups)
             = [JStr ''a1'', JStr ''b1'', JStr ''x1'', JStr ''a2'', JStr ''x2'', JStr ''x3'']"
    by code_simp
  have e: "sent empty_world = []" "total_third_party_data_list empty_world = []"
    by (simp_all add: empty_world_def)
  from multi_alias_fetch_rounds [OF h1 h2, of 3 "''p1''" 1000 empty_world]
  have a: "get_partner_third_party_data 3 (paged_upstream example_pages) 3 ''p1'' 1000 example_groups
       empty_world
     = Some (Inr (),
         empty_world \<lparr> sent := [example_request_1, example_request_2, example_request_3],
           total_third_party_data_list :=
             [JStr ''a1'', JStr ''b1'', JStr ''x1'', JStr ''a2'', JStr ''x2'', JStr ''x3''] \<rparr>)"
    unfolding m q t e by simp
  from multi_alias_fetch_rounds [OF h1 h2, of 2 "''p1''" 1000 empty_world]
  have b: "get_partner_third_party_data 2 (paged_upstream example_pages) 3 ''p1'' 1000 example_groups
       empty_world = None"
    unfolding m by simp
  from m a b show ?thesis by simp
qed

section \<open>Provider discovery\<close>

lemma py_eq_refl: "py_eq x x"
  by (cases x) simp_all

lemma py_eq_sym: "py_eq x y \<Longrightarrow> py_eq y x"
  by (cases x; cases y) simp_all

lemma set_add_props:
  assumes "set_add s x = Inr s'" and "pairwise_distinct_ids s"
  shows "pairwise_distinct_ids s'" and "set s \<subseteq> set s'" and "set s' \<subseteq> insert x (set s)"
    and "\<exists>y \<in> set s'. py_eq y x"
proof -
  from assms(1) have s': "s' = (if list_ex (\<lambda>y. py_eq y x) s then s else s @ [x])"
    by (auto simp: set_add_def split: if_splits)
  show "pairwise_distinct_ids s'"
    using assms(2) unfolding s' pairwise_distinct_ids_def
    by (auto simp: list_ex_iff py_eq_refl dest: py_eq_sym)
  show "set s \<subseteq> set s'" unfolding s' by auto
  show "set s' \<subseteq> insert x (set s)" unfolding s' by auto
  show "\<exists>y \<in> set s'. py_eq y x" unfolding s' by (auto simp: list_ex_iff py_eq_refl)
qed

lemma provider_id_set_props:
  assumes "provider_id_set nodes acc = Inr ids" and "pairwise_distinct_ids acc"
  shows "pairwise_distinct_ids ids
       \<and> set acc \<subseteq> set ids
       \<and> (\<forall>x \<in> set ids - set acc. truthy x \<and> (\<exists>node \<in> set nodes. py_index node ''id'' = Inr x))
       \<and> (\<forall>node \<in> set nodes. \<forall>x. py_index node ''id'' = Inr x \<and> truthy x
             \<longrightarrow> (\<exists>y \<in> set ids. py_eq y x))"
  using assms
proof (induction nodes arbitrary: acc)
  case Nil
  then show ?case by simp
next
  case (Cons node nodes)
  from Cons.prems(1) obtain v where v: "py_get node ''id'' JNull = Inr v"
    by (auto elim!: ebind_InrE)
  show ?case
  proof (cases "truthy v")
    case False
    with Cons.prems(1) v have rest: "provider_id_set nodes acc = Inr ids" by simp
    have none: "\<not> (py_index node ''id'' = Inr x \<and> truthy x)" for x
      using v False by (cases node) (auto split: option.splits)
    from Cons.IH [OF rest Cons.prems(2)] none show ?thesis by auto
  next
    case True
    with Cons.prems(1) v obtain x acc' where
      x: "py_index node ''id'' = Inr x" and a: "set_add acc x = Inr acc'"
      and rest: "provider_id_set nodes acc' = Inr ids"
      by (auto elim!: ebind_InrE)
    from v x have xv: "x = v" by (cases node) (auto split: option.splits)
    note sp = set_add_props [OF a Cons.prems(2)]
    note ih = Cons.IH [OF rest sp(1)]
    have 1: "pairwise_distinct_ids ids" using ih by simp
    have 2: "set acc \<subseteq> set ids" using ih sp(2) by auto
    have 3: "\<forall>y \<in> set ids - set acc. truthy y \<and> (\<exists>n \<in> set (node # nodes). py_index n ''id'' = Inr y)"
    proof
      fix y assume y: "y \<in> set ids - set acc"
      show "truthy y \<and> (\<exists>n \<in> set (node # nodes). py_index n ''id'' = Inr y)"
      proof (cases "y \<in> set acc'")
        case True
        with y sp(3) have "y = x" by auto
        with x xv \<open>truthy v\<close> show ?thesis by auto
      next
        case False
        with y ih show ?thesis by auto
      qed
    qed
    have 4: "\<forall>n \<in> set (node # nodes). \<forall>z. py_index n ''id'' = Inr z \<and> truthy z
               \<longrightarrow> (\<exists>y \<in> set ids. py_eq y z)"
    proof (intro ballI allI impI)
      fix n z assume n: "n \<in> set (node # nodes)" and z: "py_index n ''id'' = Inr z \<and> truthy z"
      show "\<exists>y \<in> set ids. py_eq y z"
      proof (cases "n = node")
        case True
        with z x have "z = x" by simp
        with sp(4) ih show ?thesis by auto
      next
        case False
        with n z ih show ?thesis by auto
      qed
    qed
    from 1 2 3 4 show ?thesis by blast
  qed
qed

lemma provider_id_set_skips:
  "provider_id_set nodes acc
     = provider_id_set (filter (\<lambda>node. \<not> id_missing_or_falsy node) nodes) acc"
proof (induction nodes arbitrary: acc)
  case Nil
  then show ?case by simp
next
  case (Cons node nodes)
  show ?case
  proof (cases "py_get node ''id'' JNull")
    case (Inl e)
    then show ?thesis by (simp add: id_missing_or_falsy_def)
  next
    case (Inr v)
    show ?thesis
    proof (cases "truthy v")
      case True
      with Inr have keep: "\<not> id_missing_or_falsy node" by (simp add: id_missing_or_falsy_def)
      show ?thesis
      proof (cases "ebind (py_index node ''id'') (set_add acc)")
        case (Inl e)
        with Inr True keep show ?thesis
          by (cases "py_index node ''id''") (auto simp: Cons.IH)
      next
        case (Inr acc')
        with \<open>py_get node ''id'' JNull = Inr v\<close> True keep show ?thesis
          by (cases "py_index node ''id''") (auto simp: Cons.IH)
      qed
    next
      case False
      with Inr show ?thesis by (simp add: id_missing_or_falsy_def Cons.IH)
    qed
  qed
qed

lemma providers_Inr:
  assumes "get_user_third_party_data_providers set_order srv cfg w = (Inr provider_ids, w')"
  obtains s where
    "provider_id_set (response_nodes (srv (length (sent w)) (providers_request cfg))) [] = Inr s"
    "provider_ids = set_order s"
    "w' = after_requests w 1 (providers_request cfg)"
proof -
  let ?r = "srv (length (sent w)) (providers_request cfg)"
  from assms obtain response where
    rr: "read_response ?r = Inr (True, response)"
    and w': "w' = after_requests w 1 (providers_request cfg)"
    and ch: "ebind (py_index (data response) ''partner'') (\<lambda>partner.
                 ebind (py_index partner ''thirdPartyDataProviders'') (\<lambda>providers.
                 ebind (py_index providers ''nodes'') (\<lambda>nodes.
                 ebind (py_iter nodes) (\<lambda>node_list.
                 ebind (provider_id_set node_list []) (\<lambda>provider_ids.
                   Inr (set_order provider_ids)))))) = Inr provider_ids"
    by (auto simp: get_user_third_party_data_providers_def execute_gql_request_def Let_def
          providers_request_def after_requests_def split: sum.splits prod.splits if_splits)
  from ch obtain partner providers nodes node_list s where
    c: "py_index (data response) ''partner'' = Inr partner"
       "py_index partner ''thirdPartyDataProviders'' = Inr providers"
       "py_index providers ''nodes'' = Inr nodes"
       "py_iter nodes = Inr node_list"
       "provider_id_set node_list [] = Inr s"
       "provider_ids = set_order s"
    by (auto elim!: ebind_InrE)
  from rr c have "response_nodes ?r = node_list"
    by (simp add: response_nodes_def)
  with c w' that show ?thesis by simp
qed

text \<open>
  Claim C10. Whatever order \<^verbatim>\<open>list(...)\<close> lists a set in, when provider discovery returns, its
  list holds each distinct provider id at most once (no two entries are equal, also in Python's
  sense); every entry is the true-valued \<^verbatim>\<open>id\<close> of a node of the response and every such id is
  in the list; nodes whose \<^verbatim>\<open>id\<close> is missing or false-valued (the empty string, null) are
  dropped without an error: the result is that of the response without them. The order of the
  list is the one the set happens to be listed in.
\<close>

theorem provider_ids_deduplicated:
  assumes "\<forall>s. distinct s \<longrightarrow> distinct (set_order s) \<and> set (set_order s) = set s"
    and "get_user_third_party_data_providers set_order srv cfg w = (Inr provider_ids, w')"
  shows "distinct provider_ids
       \<and> (\<forall>x \<in> set provider_ids. \<forall>y \<in> set provider_ids. py_eq x y \<longrightarrow> x = y)
       \<and> (\<forall>x \<in> set provider_ids. truthy x
             \<and> (\<exists>node \<in> set (response_nodes (srv (length (sent w)) (providers_request cfg))).
                    py_index node ''id'' = Inr x))
       \<and> (\<forall>node \<in> set (response_nodes (srv (length (sent w)) (providers_request cfg))).
            \<forall>x. py_index node ''id'' = Inr x \<and> truthy x \<longrightarrow> (\<exists>y \<in> set provider_ids. py_eq y x))
       \<and> (\<exists>s. provider_id_set (filter (\<lambda>node. \<not> id_missing_or_falsy node)
                   (response_nodes (srv (length (sent w)) (providers_request cfg)))) [] = Inr s
              \<and> provider_ids = set_order s)"
proof -
  let ?nodes = "response_nodes (srv (length (sent w)) (providers_request cfg))"
  from assms(2) obtain s where s: "provider_id_set ?nodes [] = Inr s" and p: "provider_ids = set_order s"
    by (rule providers_Inr)
  have "pairwise_distinct_ids []" by (simp add: pairwise_distinct_ids_def)
  from provider_id_set_props [OF s this]
  have a: "pairwise_distinct_ids s"
    and b: "\<forall>x \<in> set s. truthy x \<and> (\<exists>node \<in> set ?nodes. py_index node ''id'' = Inr x)"
    and c: "\<forall>node \<in> set ?nodes. \<forall>x. py_index node ''id'' = Inr x \<and> truthy x
             \<longrightarrow> (\<exists>y \<in> set s. py_eq y x)"
    by simp_all
  from a have ds: "distinct s" by (simp add: pairwise_distinct_ids_def)
  with assms(1) have d: "distinct provider_ids" and st: "set provider_ids = set s"
    unfolding p by simp_all
  from s have "provider_id_set (filter (\<lambda>node. \<not> id_missing_or_falsy node) ?nodes) [] = Inr s"
    by (simp add: provider_id_set_skips [symmetric])
  with a b c d p show ?thesis
    unfolding st pairwise_distinct_ids_def by blast
qed

theorem provider_ids_deduplicated_witness:
  "get_user_third_party_data_providers rev providers_server default_config empty_world
       = (Inr [JStr ''p2'', JStr ''p1''], after_requests empty_world 1 (providers_request default_config))
   \<and> get_user_third_party_data_providers id providers_server default_config empty_world
       = (Inr [JStr ''p1'', JStr ''p2''], after_requests empty_world 1 (providers_request default_config))
   \<and> distinct [JStr ''p2'', JStr ''p1'']"
proof -
  have h: "\<forall>s::json list. distinct s \<longrightarrow> distinct (rev s) \<and> set (rev s) = set s" by simp
  have r: "get_user_third_party_data_providers rev providers_server default_config empty_world
       = (Inr [JStr ''p2'', JStr ''p1''], after_requests empty_world 1 (providers_request default_config))"
    by code_simp
  have i: "get_user_third_party_data_providers id providers_server default_config empty_world
       = (Inr [JStr ''p1'', JStr ''p2''], after_requests empty_world 1 (providers_request default_config))"
    by code_simp
  from provider_ids_deduplicated [OF h r] have "distinct [JStr ''p2'', JStr ''p1'']" by blast
  with r i show ?thesis by blast
qed

section \<open>The whole run\<close>

lemma retry_file:
  "third_party_data_json (snd (execute_with_retries srv query variables partner_id max_retries w))
     = third_party_data_json w"
  using retry_sent [of 0 srv query variables partner_id max_retries w]
  by (auto simp: execute_with_retries_def after_requests_def)

lemma fetch_round_file:
  "third_party_data_json (snd (fetch_round srv max_retries partner_id third_party_data_count
       partitioned_provider_list active st w)) = third_party_data_json w"
proof (cases "build_query partitioned_provider_list (alias_cursor_map st) active")
  case (Inl e)
  then show ?thesis by (simp add: fetch_round_def)
next
  case (Inr subs)
  let ?e = "execute_with_retries srv (GetPartnerThirdPartyData subs)
              [(''partnerId'', JStr partner_id), (''thirdPartyDataCount'', JInt third_party_data_count)]
              partner_id max_retries w"
  have "snd (fetch_round srv max_retries partner_id third_party_data_count
               partitioned_provider_list active st w) = snd ?e"
    using Inr by (cases ?e; cases "fst ?e") (auto simp: fetch_round_def)
  then show ?thesis by (simp add: retry_file)
qed

lemma fetch_loop_file:
  "third_party_data_json (snd (fetch_loop fuel srv max_retries partner_id third_party_data_count
       partitioned_provider_list st w)) = third_party_data_json w"
proof (induction fuel arbitrary: st w)
  case 0
  show ?case by (subst fetch_loop.simps) (simp add: Let_def)
next
  case (Suc fuel)
  let ?active = "active_aliases_of (alias_has_more_map st)"
  let ?r = "fetch_round srv max_retries partner_id third_party_data_count
              partitioned_provider_list ?active st w"
  have f: "third_party_data_json (snd ?r) = third_party_data_json w" by (rule fetch_round_file)
  show ?case
  proof (cases ?r)
    case (Pair r1 w1)
    with f have w1: "third_party_data_json w1 = third_party_data_json w" by simp
    show ?thesis
    proof (cases r1)
      case (Inl e)
      with Pair w1 show ?thesis by (subst fetch_loop.simps) (simp add: Let_def)
    next
      case (Inr st1)
      with Pair w1 Suc.IH [of st1 w1] show ?thesis
        by (subst fetch_loop.simps) (simp add: Let_def)
    qed
  qed
qed

lemma get_partner_file:
  assumes "get_partner_third_party_data fuel srv max_retries partner_id third_party_data_count
             partitioned_provider_list w = Some (result, w')"
  shows "third_party_data_json w' = third_party_data_json w"
proof -
  let ?l = "fetch_loop fuel srv max_retries partner_id third_party_data_count
              partitioned_provider_list (initial_fetch_state partitioned_provider_list) w"
  have "third_party_data_json (snd ?l) = third_party_data_json w" by (rule fetch_loop_file)
  with assms show ?thesis
    by (cases ?l)
       (auto simp: get_partner_third_party_data_def split: sum.splits prod.splits loop_status.splits)
qed

lemma fetch_calls_file:
  "fetch_calls fuel srv cfg calls w = Some (result, w') \<Longrightarrow>
     third_party_data_json w' = third_party_data_json w"
proof (induction calls arbitrary: w)
  case Nil
  then show ?case by simp
next
  case (Cons call_list calls)
  show ?case
  proof (cases "partition_list call_list (cfg_partition_gql_alias_query_size cfg)")
    case (Inl e)
    with Cons.prems show ?thesis by simp
  next
    case (Inr groups)
    let ?g = "get_partner_third_party_data fuel srv (cfg_max_retries cfg) (cfg_partner_id cfg)
                (cfg_third_party_data_count cfg) groups w"
    from Cons.prems Inr obtain r1 w1 where g: "?g = Some (r1, w1)"
      by (cases ?g) auto
    note f1 = get_partner_file [OF g]
    show ?thesis
    proof (cases r1)
      case (Inl e)
      with Cons.prems Inr g f1 show ?thesis by simp
    next
      case (Inr u)
      with Cons.prems \<open>partition_list call_list (cfg_partition_gql_alias_query_size cfg) = Inr groups\<close> g
      have "fetch_calls fuel srv cfg calls w1 = Some (result, w')" by simp
      from Cons.IH [OF this] f1 show ?thesis by simp
    qed
  qed
qed

lemma fetch_calls_append:
  assumes "fetch_calls fuel srv cfg before w = Some (Inr (), w1)"
  shows "fetch_calls fuel srv cfg (before @ calls) w = fetch_calls fuel srv cfg calls w1"
  using assms
proof (induction before arbitrary: w)
  case Nil
  then show ?case by simp
next
  case (Cons call_list before)
  then show ?case
    by (auto split: sum.splits option.splits prod.splits)
qed

lemma providers_file:
  "third_party_data_json (snd (get_user_third_party_data_providers set_order srv cfg w))
     = third_party_data_json w"
  by (auto simp: get_user_third_party_data_providers_def execute_gql_request_def Let_def
        split: sum.splits prod.splits)

text \<open>
  Claim C9. If the fetch of an outer chunk fails (the retry wrapper's terminal error, or any
  other exception), after the chunks before it were fetched, the whole run ends with that
  error, no later chunk is fetched, and the output file is exactly what it was before the
  run: nothing is written. The records accumulated so far exist only in the module-level list
  of the process that ends.
\<close>

theorem failed_chunk_aborts_run:
  assumes "get_user_third_party_data_providers set_order srv cfg w = (Inr provider_list, w1)"
    and "partition_list provider_list (cfg_partition_total_call_size cfg)
           = Inr (fetched @ call_list # remaining)"
    and "fetch_calls fuel srv cfg fetched w1 = Some (Inr (), w2)"
    and "partition_list call_list (cfg_partition_gql_alias_query_size cfg) = Inr partitioned_provider_list"
    and "get_partner_third_party_data fuel srv (cfg_max_retries cfg) (cfg_partner_id cfg)
           (cfg_third_party_data_count cfg) partitioned_provider_list w2 = Some (Inl e, w3)"
  shows "query_partner_third_party_data fuel set_order srv cfg w = Some (Inl e, w3)
       \<and> third_party_data_json w3 = third_party_data_json w"
proof -
  have c: "fetch_calls fuel srv cfg (fetched @ call_list # remaining) w1 = Some (Inl e, w3)"
    unfolding fetch_calls_append [OF assms(3)] using assms(4,5) by simp
  then have run: "query_partner_third_party_data fuel set_order srv cfg w = Some (Inl e, w3)"
    using assms(1,2) by (simp add: query_partner_third_party_data_def)
  have "third_party_data_json w1 = third_party_data_json w"
    using providers_file [of set_order srv cfg w] assms(1) by simp
  with fetch_calls_file [OF c] run show ?thesis by simp
qed

theorem failed_chunk_aborts_run_witness:
  "query_partner_third_party_data 5 id second_chunk_down_server small_config empty_world
     = Some (Inl (Exception ''Failed to fetch data for partner p1 after 1 retries.''),
             empty_world \<lparr> sent := [providers_request small_config, chunk_request ''a'',
                                     chunk_request ''b'', chunk_request ''b''],
                           total_third_party_data_list := [JStr ''a1''] \<rparr>)
   \<and> third_party_data_json
        (empty_world \<lparr> sent := [providers_request small_config, chunk_request ''a'',
                                chunk_request ''b'', chunk_request ''b''],
                      total_third_party_data_list := [JStr ''a1''] \<rparr>)
       = third_party_data_json empty_world"
proof -
  let ?w1 = "after_requests empty_world 1 (providers_request small_config)"
  let ?w2 = "empty_world \<lparr> sent := [providers_request small_config, chunk_request ''a''],
                           total_third_party_data_list := [JStr ''a1''] \<rparr>"
  let ?w3 = "empty_world \<lparr> sent := [providers_request small_config, chunk_request ''a'',
                                     chunk_request ''b'', chunk_request ''b''],
                           total_third_party_data_list := [JStr ''a1''] \<rparr>"
  have 1: "get_user_third_party_data_providers id second_chunk_down_server small_config empty_world
             = (Inr [JStr ''a'', JStr ''b''], ?w1)"
    by code_simp
  have 2: "partition_list [JStr ''a'', JStr ''b''] (cfg_partition_total_call_size small_config)
             = Inr ([[JStr ''a'']] @ [JStr ''b''] # [])"
    by code_simp
  have 3: "fetch_calls 5 second_chunk_down_server small_config [[JStr ''a'']] ?w1 = Some (Inr (), ?w2)"
    by code_simp
  have 4: "partition_list [JStr ''b''] (cfg_partition_gql_alias_query_size small_config)
             = Inr [[JStr ''b'']]"
    by code_simp
  have 5: "get_partner_third_party_data 5 second_chunk_down_server (cfg_max_retries small_config)
             (cfg_partner_id small_config) (cfg_third_party_data_count small_config) [[JStr ''b'']] ?w2
           = Some (Inl (Exception ''Failed to fetch data for partner p1 after 1 retries.''), ?w3)"
    by code_simp
  from failed_chunk_aborts_run [OF 1 2 3 4 5] show ?thesis .
qed

end
